theory Spec2Isabelle
  imports Main "HOL-Library.AList"
begin

section \<open>Python values used by the server\<close>

text \<open>
  The server is \<^verbatim>\<open>Complex_Server.py\<close>. Its \<^verbatim>\<open>str\<close> and \<^verbatim>\<open>bytes\<close> values are
  modelled as lists of \<^typ>\<open>char\<close> (8-bit values: a byte of a \<^verbatim>\<open>bytes\<close> object, or a code
  point below 256 of a \<^verbatim>\<open>str\<close>), its lists as HOL lists, and its dictionaries as
  association lists in insertion order: \<^verbatim>\<open>d[k] = v\<close> is \<^const>\<open>AList.update\<close> (an existing
  key keeps its place, a new key goes last), \<^verbatim>\<open>del d[k]\<close> is \<^const>\<open>AList.delete\<close>,
  \<^verbatim>\<open>k in d\<close> is \<open>k \<in> fst ` set d\<close> and \<^verbatim>\<open>d[k]\<close> is \<^const>\<open>map_of\<close>.
\<close>

type_synonym bytes = "char list"

datatype error = SystemExit | KeyError | RuntimeError | AttributeError

definition CR :: char where
  "CR = CHR 0x0D"

definition LF :: char where
  "LF = CHR 0x0A"

text \<open>\<^verbatim>\<open>str.isspace\<close> on the code points below 256.\<close>

definition isspace :: "char \<Rightarrow> bool" where
  "isspace c = (c \<in> set [CHR 0x09, CHR 0x0A, CHR 0x0B, CHR 0x0C, CHR 0x0D, CHR 0x1C,
     CHR 0x1D, CHR 0x1E, CHR 0x1F, CHR 0x20, CHR 0x85, CHR 0xA0])"

text \<open>
  \<^verbatim>\<open>str.split()\<close> without arguments: the maximal runs of characters that are not
  whitespace, in order. \<open>acc\<close> holds the current run, reversed.
\<close>

fun split_acc :: "string \<Rightarrow> string \<Rightarrow> string list" where
  "split_acc acc [] = (if acc = [] then [] else [rev acc])"
| "split_acc acc (c # cs) =
     (if isspace c then (if acc = [] then split_acc [] cs else rev acc # split_acc [] cs)
      else split_acc (c # acc) cs)"

definition split_str :: "string \<Rightarrow> string list" where
  "split_str s = split_acc [] s"

text \<open>
  \<^verbatim>\<open>bytes.replace(old, new)\<close>: the occurrences of \<open>old\<close> are found from the left and do
  not overlap. For an empty \<open>old\<close> Python puts \<open>new\<close> before every byte and at the end.
\<close>

function replace :: "'a list \<Rightarrow> 'a list \<Rightarrow> 'a list \<Rightarrow> 'a list" where
  "replace old new s =
     (if old = [] then new @ concat (map (\<lambda>c. c # new) s)
      else if s = [] then []
      else if take (length old) s = old then new @ replace old new (drop (length old) s)
      else hd s # replace old new (tl s))"
  by pat_completeness auto
termination
  by (relation "measure (\<lambda>(old, new, s). length s)") auto

declare replace.simps [simp del]

text \<open>\<^verbatim>\<open>d.get(k, default)\<close>\<close>

definition get_default :: "('k \<times> 'v) list \<Rightarrow> 'k \<Rightarrow> 'v \<Rightarrow> 'v" where
  "get_default d k dflt = (case map_of d k of None \<Rightarrow> dflt | Some v \<Rightarrow> v)"

text \<open>\<^verbatim>\<open>while name in xs: xs.remove(name)\<close>\<close>

function remove_every :: "'a \<Rightarrow> 'a list \<Rightarrow> 'a list" where
  "remove_every name xs = (if name \<in> set xs then remove_every name (remove1 name xs) else xs)"
  by pat_completeness auto
termination
  by (relation "measure (\<lambda>(name, xs). length xs)") (auto simp: length_remove1 dest: length_pos_if_in_set)

declare remove_every.simps [simp del]

section \<open>Line transport: \<^verbatim>\<open>Client\<close>\<close>

text \<open>
  A \<^verbatim>\<open>Client\<close> object: \<open>oid\<close> is the object's identity (what \<^verbatim>\<open>is\<close> compares),
  \<open>closed\<close> the flag \<^verbatim>\<open>close\<close> sets, \<open>address\<close> the host part \<^verbatim>\<open>address[0]\<close>, and
  \<open>name\<close> the user name \<^verbatim>\<open>login_account\<close> binds.
\<close>

record Client =
  oid :: nat
  closed :: bool
  address :: string
  name :: string

definition SEPARATOR :: bytes where
  "SEPARATOR = [CR, LF]"

text \<open>
  \<^verbatim>\<open>Client.send\<close>. \<^verbatim>\<open>sys.exit()\<close> raises \<^verbatim>\<open>SystemExit\<close>; otherwise the result is the
  payload handed to \<^verbatim>\<open>socket.sendall\<close>. The loop runs \<open>index\<close> over
  \<^verbatim>\<open>range(len(SEPARATOR), 0, -1)\<close>; \<^verbatim>\<open>SEPARATOR[:index]\<close> is \<open>take index\<close> and
  \<^verbatim>\<open>SEPARATOR[-1:]\<close> is the last byte as a one-byte string.
\<close>

definition send :: "Client \<Rightarrow> bytes \<Rightarrow> error + bytes" where
  "send self text =
     (if closed self then Inl SystemExit
      else
        let tail = drop (length SEPARATOR - 1) SEPARATOR;
            text' = fold (\<lambda>index t. replace (take index SEPARATOR) tail t)
                      (rev [1..<Suc (length SEPARATOR)]) text
        in Inr (replace tail SEPARATOR text'))"

text \<open>
  The normal form the specification describes, read from the left: a CR LF pair, a CR
  not followed by LF, and an LF not after a CR each become one CR LF; any other byte is
  kept.
\<close>

fun normalise :: "bytes \<Rightarrow> bytes" where
  "normalise [] = []"
| "normalise [c] = (if c = CR \<or> c = LF then [CR, LF] else [c])"
| "normalise (c # d # ds) =
     (if c = CR \<and> d = LF then CR # LF # normalise ds
      else if c = CR \<or> c = LF then CR # LF # normalise (d # ds)
      else c # normalise (d # ds))"

text \<open>Every CR is followed by an LF and every LF follows a CR.\<close>

fun framed :: "bytes \<Rightarrow> bool" where
  "framed [] = True"
| "framed [c] = (c \<noteq> CR \<and> c \<noteq> LF)"
| "framed (c # d # ds) =
     (if c = CR then d = LF \<and> framed ds else c \<noteq> LF \<and> framed (d # ds))"

section \<open>Accounts and channels\<close>

text \<open>\<^verbatim>\<open>ChannelLine\<close>, and \<^verbatim>\<open>Message\<close>, which extends it.\<close>

record ChannelLine =
  source :: string
  message :: string

record Message = ChannelLine +
  new :: bool

text \<open>\<^verbatim>\<open>Account\<close>; \<open>Account_new\<close> is its constructor. The lock is not modelled.\<close>

record Account =
  administrator :: bool
  online :: bool
  password :: string
  contacts :: "string list"
  messages :: "Message list"
  forgiven :: int

definition Account_new :: "bool \<Rightarrow> Account" where
  "Account_new admin =
     \<lparr>administrator = admin, online = False, password = [], contacts = [], messages = [],
      forgiven = 0\<rparr>"

type_synonym accounts = "(string \<times> Account) list"

text \<open>\<^verbatim>\<open>ChannelServer.state = enum('start, setup, ready, reset, final')\<close>\<close>

datatype state = Start | Setup | Ready | Reset | Final

text \<open>
  \<^verbatim>\<open>ChannelServer\<close>. \<open>connected_clients\<close> maps the ident of a worker thread to its
  client. \<open>buffer_size\<close> and \<open>replay_size\<close> are \<^verbatim>\<open>None\<close> or what \<^verbatim>\<open>get_size\<close> returned,
  which is never negative (\<^verbatim>\<open>assert size >= 0\<close>). The two locks are not modelled: every
  operation below runs as one step.
\<close>

record ChannelServer =
  channel_name :: "string option"
  owner :: string
  password :: string
  buffer :: "ChannelLine list"
  buffer_size :: "nat option"
  replay_size :: "nat option"
  status :: state
  connected_clients :: "(nat \<times> Client) list"
  muted_to_muter :: "(string \<times> string list) list"
  kicked :: "string list"
  banned :: "string list"
  admin_name :: string

definition builtin_buffer_limit :: nat where
  "builtin_buffer_limit = 10000"

definition ChannelServer_new :: "string \<Rightarrow> string \<Rightarrow> ChannelServer" where
  "ChannelServer_new channel_name' owner' =
     \<lparr>channel_name = Some channel_name', owner = owner', password = [], buffer = [],
      buffer_size = None, replay_size = Some 10, status = Start, connected_clients = [],
      muted_to_muter = [], kicked = [], banned = [], admin_name = []\<rparr>"

subsection \<open>Output\<close>

text \<open>
  What the server writes is recorded as a list of pairs: the identity of the client
  written to, and the text given to \<^verbatim>\<open>print\<close> (its arguments joined by a blank, without
  the final newline). A command runs on the worker thread of its own client, right
  after \<^verbatim>\<open>input\<close> has read the command from it, so that client is open and connected
  to the channel: \<^verbatim>\<open>self.client\<close>, the entry of \<open>connected_clients\<close> under the running
  thread's ident, is passed to the operations below as \<open>client\<close>, and a \<^verbatim>\<open>print\<close> to it is
  recorded. The other clients of a channel may have been closed by
  \<^verbatim>\<open>force_disconnect\<close> in the meantime; \<^verbatim>\<open>broadcast\<close> below takes that into account.
\<close>

type_synonym wire = "(nat \<times> string) list"

definition print_to :: "Client \<Rightarrow> string \<Rightarrow> wire" where
  "print_to client s = [(oid client, s)]"

text \<open>\<^verbatim>\<open>ChannelLine.echo\<close> prints \<^verbatim>\<open>'[{}] {}'.format(self.source, self.message)\<close>.\<close>

definition echo_text :: "ChannelLine \<Rightarrow> string" where
  "echo_text l = ''['' @ source l @ ''] '' @ message l"

subsection \<open>\<^verbatim>\<open>OutsideMenu\<close>: queries on the account registry\<close>

definition account_exists :: "accounts \<Rightarrow> string \<Rightarrow> bool" where
  "account_exists ACCOUNTS name' = (name' \<in> fst ` set ACCOUNTS)"

text \<open>\<^verbatim>\<open>is_administrator\<close> returns \<^verbatim>\<open>None\<close> for a name that has no account.\<close>

definition is_administrator :: "accounts \<Rightarrow> string \<Rightarrow> bool option" where
  "is_administrator ACCOUNTS name' = map_option administrator (map_of ACCOUNTS name')"

subsection \<open>\<^verbatim>\<open>ChannelServer\<close>: history\<close>

definition connect :: "nat \<Rightarrow> Client \<Rightarrow> ChannelServer \<Rightarrow> ChannelServer" where
  "connect ident client self =
     self\<lparr>connected_clients := AList.update ident client (connected_clients self)\<rparr>"

definition disconnect :: "nat \<Rightarrow> ChannelServer \<Rightarrow> ChannelServer" where
  "disconnect ident self =
     self\<lparr>connected_clients := AList.delete ident (connected_clients self)\<rparr>"

text \<open>
  \<^verbatim>\<open>add_line\<close> returns the new line. \<^verbatim>\<open>del self.buffer[:len(self.buffer)-buffer_size]\<close>
  drops that many lines from the head.
\<close>

definition add_line :: "string \<Rightarrow> string \<Rightarrow> ChannelServer \<Rightarrow> ChannelLine \<times> ChannelServer" where
  "add_line name' line self =
     (let buffer_size' = (case buffer_size self of None \<Rightarrow> builtin_buffer_limit
                          | Some n \<Rightarrow> min n builtin_buffer_limit);
          channel_line = \<lparr>source = name', message = line\<rparr>
      in if buffer_size' \<noteq> 0 then
           (let buffer' = buffer self @ [channel_line]
            in (channel_line,
                self\<lparr>buffer := (if length buffer' > buffer_size'
                                 then drop (length buffer' - buffer_size') buffer'
                                 else buffer')\<rparr>))
         else (channel_line, self))"

text \<open>
  \<^verbatim>\<open>replay_buffer\<close>: \<^verbatim>\<open>self.buffer[-self.replay_size:]\<close> is the last \<open>replay_size\<close> lines, or
  the whole buffer when it has fewer.
\<close>

definition replay_buffer :: "Client \<Rightarrow> ChannelServer \<Rightarrow> wire" where
  "replay_buffer client self =
     (let buffer' = (case replay_size self of None \<Rightarrow> buffer self
                     | Some n \<Rightarrow> if n > 0 then drop (length (buffer self) - n) (buffer self)
                                else [])
      in concat (map (\<lambda>line. print_to client (echo_text line)) buffer'))"

subsection \<open>\<^verbatim>\<open>ChannelServer\<close>: broadcast\<close>

text \<open>
  The inner function \<^verbatim>\<open>accept\<close> of \<^verbatim>\<open>broadcast\<close>, with the variables it closes over as
  arguments. \<^verbatim>\<open>destination is not client\<close> compares identities.
\<close>

definition accept :: "Client \<Rightarrow> string list \<Rightarrow> string list \<Rightarrow> bool \<Rightarrow> Client \<Rightarrow> bool" where
  "accept client muter kicked' echo destination =
     (if name destination \<in> set kicked' then False
      else if name destination \<in> set muter then False
      else if echo then True
      else oid destination \<noteq> oid client)"

text \<open>
  The loop \<^verbatim>\<open>for destination in filter(accept, clients): channel_line.echo(destination)\<close>.
  \<^verbatim>\<open>echo\<close> prints, and \<^verbatim>\<open>send\<close> on a closed client raises \<^verbatim>\<open>SystemExit\<close> in the thread
  that broadcasts: the loop ends there.
\<close>

fun echo_all :: "ChannelLine \<Rightarrow> Client list \<Rightarrow> wire \<times> error option" where
  "echo_all channel_line [] = ([], None)"
| "echo_all channel_line (destination # rest) =
     (if closed destination then ([], Some SystemExit)
      else (case echo_all channel_line rest of
              (w, e) \<Rightarrow> ((oid destination, echo_text channel_line) # w, e)))"

definition broadcast :: "Client \<Rightarrow> ChannelLine \<Rightarrow> bool \<Rightarrow> ChannelServer \<Rightarrow> wire \<times> error option" where
  "broadcast client channel_line echo self =
     (let clients = map snd (connected_clients self);
          muter = get_default (muted_to_muter self) (source channel_line) [];
          kicked' = kicked self
      in echo_all channel_line (filter (accept client muter kicked' echo) clients))"

text \<open>
  One turn of the loop of \<^verbatim>\<open>message_loop\<close>, for the line \<open>line\<close> just read from the
  client: a kicked client is told so and the loop returns; a line that starts with a
  colon is a command, left to \<^verbatim>\<open>run_command\<close>; any other line is added to the buffer and
  broadcast with \<open>echo = True\<close>.
\<close>

datatype turn = Returned | Command string | Said

definition message_loop_turn ::
  "Client \<Rightarrow> string \<Rightarrow> ChannelServer \<Rightarrow> turn \<times> ChannelServer \<times> wire \<times> error option" where
  "message_loop_turn client line self =
     (if name client \<in> set (kicked self)
      then (Returned, self, print_to client ''You have been kicked out of this channel.'', None)
      else if take 1 line = '':'' then (Command (drop 1 line), self, [], None)
      else (case add_line (name client) line self of
              (channel_line, self') \<Rightarrow>
                (case broadcast client channel_line True self' of
                   (w, e) \<Rightarrow> (Said, self', w, e))))"

text \<open>
  The events \<^verbatim>\<open>message_loop\<close> and \<^verbatim>\<open>run_channel\<close> broadcast when a client joins and
  leaves: lines whose source is the literal \<^verbatim>\<open>EVENT\<close>, sent with \<open>echo = False\<close>.
\<close>

definition joining :: "Client \<Rightarrow> ChannelServer \<Rightarrow> wire \<times> error option" where
  "joining client self =
     broadcast client \<lparr>source = ''EVENT'', message = name client @ '' is joining.''\<rparr> False self"

definition leaving :: "Client \<Rightarrow> ChannelServer \<Rightarrow> wire \<times> error option" where
  "leaving client self =
     broadcast client \<lparr>source = ''EVENT'', message = name client @ '' is leaving.''\<rparr> False self"

subsection \<open>\<^verbatim>\<open>ChannelAdmin\<close>: settings\<close>

text \<open>
  \<^verbatim>\<open>do_buffer\<close> and \<^verbatim>\<open>do_replay\<close> store what \<^verbatim>\<open>get_size\<close> returns, here the argument
  \<open>size'\<close>: \<^verbatim>\<open>None\<close> for \<^verbatim>\<open>all\<close>, \<^verbatim>\<open>infinite\<close> or \<^verbatim>\<open>total\<close>, else the number entered.
\<close>

definition do_buffer :: "nat option \<Rightarrow> ChannelServer \<Rightarrow> ChannelServer" where
  "do_buffer size' self = self\<lparr>buffer_size := size'\<rparr>"

definition do_replay :: "nat option \<Rightarrow> ChannelServer \<Rightarrow> ChannelServer" where
  "do_replay size' self = self\<lparr>replay_size := size'\<rparr>"

definition do_purge :: "Client \<Rightarrow> ChannelServer \<Rightarrow> ChannelServer \<times> wire" where
  "do_purge client self = (self\<lparr>buffer := []\<rparr>, print_to client ''The buffer has been cleared.'')"

text \<open>
  \<^verbatim>\<open>reset_channel\<close>, and the commands \<^verbatim>\<open>do_close\<close> and \<^verbatim>\<open>do_reset\<close> that put every
  connected client on the \<open>kicked\<close> list.
\<close>

definition reset_channel :: "Client \<Rightarrow> ChannelServer \<Rightarrow> ChannelServer" where
  "reset_channel client self =
     self\<lparr>owner := name client, password := [], buffer := [], buffer_size := None,
          replay_size := Some 10, muted_to_muter := [], banned := []\<rparr>"

definition do_close :: "Client \<Rightarrow> ChannelServer \<Rightarrow> ChannelServer \<times> wire" where
  "do_close client self =
     (self\<lparr>kicked := kicked self @ map (name \<circ> snd) (connected_clients self)\<rparr>,
      print_to client ''Everyone has been kicked off the channel.'')"

definition do_reset :: "Client \<Rightarrow> ChannelServer \<Rightarrow> ChannelServer \<times> wire" where
  "do_reset client self =
     (reset_channel client
        (self\<lparr>status := Reset,
              kicked := kicked self @ map (name \<circ> snd) (connected_clients self)\<rparr>),
      print_to client ''Channel has been reset, and you are its owner.'')"

subsection \<open>\<^verbatim>\<open>ChannelServer\<close>: mute\<close>

text \<open>
  \<^verbatim>\<open>add_mute\<close>. \<open>okay\<close> starts as the truth value of \<^verbatim>\<open>account_exists(muted)\<close> and is
  incremented when the caller is added, so it is 0, 1 or 2. The muter lists are
  Python lists: \<^verbatim>\<open>append\<close> adds at the end.
\<close>

definition add_mute :: "accounts \<Rightarrow> string \<Rightarrow> Client \<Rightarrow> ChannelServer \<Rightarrow> ChannelServer \<times> wire" where
  "add_mute ACCOUNTS muted client self =
     (let okay = (if account_exists ACCOUNTS muted then 1 else 0 :: nat);
          m2m = muted_to_muter self;
          (okay', m2m') =
            (if okay \<noteq> 0 then
               (case map_of m2m muted of
                  Some muters \<Rightarrow>
                    if name client \<notin> set muters
                    then (okay + 1, AList.update muted (muters @ [name client]) m2m)
                    else (okay, m2m)
                | None \<Rightarrow> (okay + 1, AList.update muted [name client] m2m))
             else (okay, m2m))
      in (self\<lparr>muted_to_muter := m2m'\<rparr>,
          if okay' \<noteq> 0 then
            (if okay' > 1 then print_to client (muted @ '' has been muted.'')
             else print_to client (muted @ '' was already muted.''))
          else if muted \<noteq> [] then print_to client (muted @ '' does not exist.'')
          else print_to client ''Cancelling ...''))"

text \<open>\<^verbatim>\<open>del_mute\<close>. \<^verbatim>\<open>muters.remove\<close> removes the first occurrence.\<close>

definition del_mute :: "string \<Rightarrow> Client \<Rightarrow> ChannelServer \<Rightarrow> ChannelServer \<times> wire" where
  "del_mute muted client self =
     (if muted \<noteq> [] then
        (let m2m = muted_to_muter self
         in case map_of m2m muted of
              Some muters \<Rightarrow>
                if name client \<in> set muters then
                  (let muters' = remove1 (name client) muters
                   in (self\<lparr>muted_to_muter :=
                              (if muters' = [] then AList.delete muted m2m
                               else AList.update muted muters' m2m)\<rparr>,
                       print_to client (muted @ '' has been unmuted.'')))
                else (self, print_to client (muted @ '' was not muted.''))
            | None \<Rightarrow> (self, print_to client (muted @ '' was not muted.'')))
      else (self, print_to client ''Cancelling ...''))"

subsection \<open>\<^verbatim>\<open>ChannelServer\<close>: kick and ban\<close>

text \<open>
  \<^verbatim>\<open>self.client.account\<close> is the account \<^verbatim>\<open>login_account\<close> bound to the client, the
  entry of \<^verbatim>\<open>OutsideMenu.ACCOUNTS\<close> under \<^verbatim>\<open>self.client.name\<close>; the model reads it
  there, and the lookup of a name that has no entry is a \<^verbatim>\<open>KeyError\<close>.
\<close>

definition privileged :: "accounts \<Rightarrow> Client \<Rightarrow> bool \<Rightarrow> ChannelServer \<Rightarrow> error + bool \<times> wire" where
  "privileged ACCOUNTS client show_error self =
     (case map_of ACCOUNTS (name client) of
        None \<Rightarrow> Inl KeyError
      | Some account \<Rightarrow>
          if administrator account then Inr (True, [])
          else if name client = owner self then Inr (True, [])
          else if show_error
            then Inr (False, print_to client ''Only administrators or channel owner may do that.'')
          else Inr (False, []))"

text \<open>\<^verbatim>\<open>is_protected\<close> returns \<^verbatim>\<open>True\<close>, \<^verbatim>\<open>False\<close>, or \<^verbatim>\<open>None\<close> for a name without account.\<close>

definition is_protected :: "accounts \<Rightarrow> Client \<Rightarrow> string \<Rightarrow> ChannelServer \<Rightarrow> bool option \<times> wire" where
  "is_protected ACCOUNTS client name' self =
     (if owner self = name' then (Some True, [])
      else (case is_administrator ACCOUNTS name' of
              None \<Rightarrow> (None, print_to client (name' @ '' does not exist.''))
            | Some a \<Rightarrow> (Some a, [])))"

text \<open>
  \<^verbatim>\<open>do_kick\<close>. \<open>answer\<close> is the line the client sends when asked \<^verbatim>\<open>Who?\<close>. The
  \<^verbatim>\<open>for\<close> loop appends the name once, at the first connected client that bears it.
\<close>

definition do_kick ::
  "accounts \<Rightarrow> Client \<Rightarrow> string list \<Rightarrow> bool \<Rightarrow> string \<Rightarrow> ChannelServer
     \<Rightarrow> ChannelServer \<times> wire \<times> error option" where
  "do_kick ACCOUNTS client args verbose answer self =
     (case privileged ACCOUNTS client True self of
        Inl e \<Rightarrow> (self, [], Some e)
      | Inr (False, w) \<Rightarrow> (self, w, None)
      | Inr (True, w) \<Rightarrow>
          (let (name', w1) = (if args \<noteq> [] then (hd args, [])
                              else (answer, print_to client ''Who?''));
               printer = (\<lambda>s. if verbose then print_to client s else [])
           in if name' = [] then (self, w @ w1 @ printer ''Cancelling ...'', None)
              else (case is_protected ACCOUNTS client name' self of
                      (None, w2) \<Rightarrow> (self, w @ w1 @ w2, None)
                    | (Some True, w2) \<Rightarrow>
                        (self, w @ w1 @ w2 @ printer (name' @ '' cannot be kicked.''), None)
                    | (Some False, w2) \<Rightarrow>
                        if name' \<in> set (map (name \<circ> snd) (connected_clients self))
                        then (self\<lparr>kicked := kicked self @ [name']\<rparr>,
                              w @ w1 @ w2 @ printer (name' @ '' has been kicked.''), None)
                        else (self,
                              w @ w1 @ w2 @ printer (name' @ '' is not on this channel.''),
                              None))))"

text \<open>
  \<^verbatim>\<open>add_ban\<close>. After \<^verbatim>\<open>cannot be banned.\<close> the source does not return: a protected
  name is banned like any other.
\<close>

definition add_ban ::
  "accounts \<Rightarrow> Client \<Rightarrow> string \<Rightarrow> ChannelServer \<Rightarrow> ChannelServer \<times> wire \<times> error option" where
  "add_ban ACCOUNTS client name' self =
     (case is_protected ACCOUNTS client name' self of
        (None, w0) \<Rightarrow> (self, w0, None)
      | (Some protected, w0) \<Rightarrow>
          (let w1 = (if protected then print_to client (name' @ '' cannot be banned.'') else []);
               will_ban = name' \<notin> set (banned self)
           in if will_ban then
                (case do_kick ACCOUNTS client [name'] False [] (self\<lparr>banned := banned self @ [name']\<rparr>) of
                   (self', w2, Some e) \<Rightarrow> (self', w0 @ w1 @ w2, Some e)
                 | (self', w2, None) \<Rightarrow>
                     (self', w0 @ w1 @ w2 @ print_to client (name' @ '' has been banned.''), None))
              else (self, w0 @ w1 @ print_to client (name' @ '' was already been banned.''), None)))"

definition del_ban :: "Client \<Rightarrow> string \<Rightarrow> ChannelServer \<Rightarrow> ChannelServer \<times> wire" where
  "del_ban client name' self =
     (if name' \<in> set (banned self)
      then (self\<lparr>banned := remove1 name' (banned self)\<rparr>,
            print_to client (name' @ '' is no longer banned on this channel.''))
      else (self, print_to client (name' @ '' was not banned on this channel.'')))"

text \<open>
  The \<^verbatim>\<open>finally\<close> clause of \<^verbatim>\<open>ChannelServer.handle\<close>, run when the client leaves the
  channel: its name is taken off the \<open>kicked\<close> list and the thread is disconnected.
\<close>

definition handle_finally :: "nat \<Rightarrow> Client \<Rightarrow> ChannelServer \<Rightarrow> ChannelServer" where
  "handle_finally ident client self =
     disconnect ident (self\<lparr>kicked := remove_every (name client) (kicked self)\<rparr>)"

section \<open>The registries and the menus\<close>

text \<open>
  The class attributes that hold the server's global state: \<^verbatim>\<open>BanFilter.BLOCKED\<close>,
  \<^verbatim>\<open>OutsideMenu.ACCOUNTS\<close>, \<^verbatim>\<open>InsideMenu.NEXT_CHANNEL\<close>, \<^verbatim>\<open>InsideMenu.CHANNEL_NAMES\<close>
  and, as \<open>CHANNELS\<close>, the attributes \<^verbatim>\<open>InsideMenu.CHANNEL_<n>\<close> keyed by \<open>n\<close>.
\<close>

record statics =
  BLOCKED :: "string list"
  ACCOUNTS :: accounts
  NEXT_CHANNEL :: nat
  CHANNEL_NAMES :: "(string \<times> nat) list"
  CHANNELS :: "(nat \<times> ChannelServer) list"

text \<open>
  What a command returns to \<^verbatim>\<open>command_loop\<close>: \<^verbatim>\<open>None\<close> (the loop goes on), an
  \<^verbatim>\<open>EOFError\<close> instance (the handler is popped) or the next handler (pushed).
\<close>

datatype handler = InsideMenu Client | AdminConsole Client | Channel nat

datatype reply = Continue | Pop | Push handler

subsection \<open>\<^verbatim>\<open>OutsideMenu.delete_account\<close>\<close>

text \<open>
  The last loop of \<^verbatim>\<open>clean_name_from_channels\<close>, over the keys the dictionary has when
  the loop starts. Deleting a key changes the size of the dictionary, and the key
  iterator of Python 3 then raises \<^verbatim>\<open>RuntimeError\<close> when asked for the next key, also
  when no key is left.
\<close>

fun clean_muters ::
  "string \<Rightarrow> string list \<Rightarrow> (string \<times> string list) list
     \<Rightarrow> (string \<times> string list) list \<times> error option" where
  "clean_muters name' [] m2m = (m2m, None)"
| "clean_muters name' (muted # rest) m2m =
     (case map_of m2m muted of
        None \<Rightarrow> (m2m, Some KeyError)
      | Some muter \<Rightarrow>
          if name' \<in> set muter then
            (let muter' = remove1 name' muter
             in if muter' = [] then (AList.delete muted m2m, Some RuntimeError)
                else clean_muters name' rest (AList.update muted muter' m2m))
          else clean_muters name' rest m2m)"

text \<open>The body of the loop over the channels, for one channel.\<close>

definition clean_channel :: "string \<Rightarrow> ChannelServer \<Rightarrow> ChannelServer \<times> error option" where
  "clean_channel name' channel =
     (let m2m = (if name' \<in> fst ` set (muted_to_muter channel)
                 then AList.delete name' (muted_to_muter channel)
                 else muted_to_muter channel);
          banned' = remove_every name' (banned channel)
      in case clean_muters name' (map fst m2m) m2m of
           (m2m', e) \<Rightarrow> (channel\<lparr>muted_to_muter := m2m', banned := banned'\<rparr>, e))"

text \<open>
  \<^verbatim>\<open>get_channels\<close> lists the channels of the indices in \<^verbatim>\<open>CHANNEL_NAMES.values()\<close>,
  leaving out an index that has no attribute. The loop changes each channel in place
  and ends at the first error.
\<close>

fun clean_channels ::
  "string \<Rightarrow> nat list \<Rightarrow> (nat \<times> ChannelServer) list
     \<Rightarrow> (nat \<times> ChannelServer) list \<times> error option" where
  "clean_channels name' [] chans = (chans, None)"
| "clean_channels name' (index # rest) chans =
     (case map_of chans index of
        None \<Rightarrow> clean_channels name' rest chans
      | Some channel \<Rightarrow>
          (case clean_channel name' channel of
             (channel', Some e) \<Rightarrow> (AList.update index channel' chans, Some e)
           | (channel', None) \<Rightarrow>
               clean_channels name' rest (AList.update index channel' chans)))"

definition clean_name_from_channels :: "string \<Rightarrow> statics \<Rightarrow> statics \<times> error option" where
  "clean_name_from_channels name' S =
     (case clean_channels name' (map snd (CHANNEL_NAMES S)) (CHANNELS S) of
        (chans, e) \<Rightarrow> (S\<lparr>CHANNELS := chans\<rparr>, e))"

text \<open>\<^verbatim>\<open>account.contacts.remove(name)\<close> removes the first occurrence.\<close>

definition delete_account :: "string \<Rightarrow> statics \<Rightarrow> statics \<times> error option" where
  "delete_account name' S =
     clean_name_from_channels name'
       (if name' \<in> fst ` set (ACCOUNTS S)
        then S\<lparr>ACCOUNTS :=
                 map (\<lambda>(k, account).
                        (k, if name' \<in> set (contacts account)
                            then account\<lparr>contacts := remove1 name' (contacts account)\<rparr>
                            else account))
                   (AList.delete name' (ACCOUNTS S))\<rparr>
        else S)"

subsection \<open>\<^verbatim>\<open>InsideMenu\<close>\<close>

definition MAX_FORGIVENESS :: int where
  "MAX_FORGIVENESS = 2"

text \<open>
  \<^verbatim>\<open>do_admin\<close>. As in \<^const>\<open>privileged\<close>, \<^verbatim>\<open>self.client.account\<close> is the entry of
  \<^verbatim>\<open>ACCOUNTS\<close> under the client's name. \<^verbatim>\<open>self.client.close()\<close> raises \<^verbatim>\<open>SystemExit\<close>,
  so the statements after it are not reached; an error of \<^verbatim>\<open>delete_account\<close> leaves
  the function before anything is printed.
\<close>

definition do_admin :: "Client \<Rightarrow> statics \<Rightarrow> (error + reply) \<times> statics \<times> wire" where
  "do_admin client S =
     (case map_of (ACCOUNTS S) (name client) of
        None \<Rightarrow> (Inl KeyError, S, [])
      | Some account \<Rightarrow>
          if \<not> administrator account then
            (if forgiven account \<ge> MAX_FORGIVENESS then
               (case delete_account (name client) (S\<lparr>BLOCKED := BLOCKED S @ [address client]\<rparr>) of
                  (S', Some e) \<Rightarrow> (Inl e, S', [])
                | (S', None) \<Rightarrow>
                    (Inl SystemExit, S',
                     print_to client ''You have been warned for the last time!''
                     @ print_to client ''Now your IP address has been blocked &''
                     @ print_to client ''your account has been completely removed.''))
             else
               (Inr Pop,
                S\<lparr>ACCOUNTS := AList.update (name client)
                                 (account\<lparr>forgiven := forgiven account + 1\<rparr>) (ACCOUNTS S)\<rparr>,
                print_to client ''You are not authorized to be here.''))
          else (Inr (Push (AdminConsole client)), S, []))"

text \<open>
  \<^verbatim>\<open>do_channel\<close>. \<open>ident\<close> is the ident of the running thread, which \<^verbatim>\<open>connect\<close> uses as
  key, and \<open>answer\<close> the line the client sends when asked for the name.
\<close>

definition do_channel ::
  "nat \<Rightarrow> Client \<Rightarrow> string list \<Rightarrow> string \<Rightarrow> statics \<Rightarrow> (error + reply) \<times> statics \<times> wire" where
  "do_channel ident client args answer S =
     (let (name', w) = (if args \<noteq> [] then (hd args, [])
                        else (answer, print_to client ''Channel to open?''))
      in if length args > 1 \<or> length (split_str name') > 1
         then (Inr Continue, S, w @ print_to client ''Channel name may not have whitespace!'')
         else if name' \<noteq> [] then
           (let opening = print_to client (''Opening the '' @ name' @ '' channel ...'')
            in case map_of (CHANNEL_NAMES S) name' of
                 Some index \<Rightarrow>
                   (case map_of (CHANNELS S) index of
                      None \<Rightarrow> (Inl AttributeError, S, w)
                    | Some channel \<Rightarrow>
                        (Inr (Push (Channel index)),
                         S\<lparr>CHANNELS := AList.update index (connect ident client channel)
                                          (CHANNELS S)\<rparr>,
                         w @ opening))
               | None \<Rightarrow>
                   (let channel = ChannelServer_new name' (name client);
                        index = NEXT_CHANNEL S
                    in (Inr (Push (Channel index)),
                        S\<lparr>CHANNEL_NAMES := AList.update name' index (CHANNEL_NAMES S),
                          CHANNELS := AList.update index (connect ident client channel)
                                        (CHANNELS S),
                          NEXT_CHANNEL := index + 1\<rparr>,
                        w @ opening)))
         else (Inr Continue, S, w @ print_to client ''Channel name may not be empty.''))"

subsection \<open>\<^verbatim>\<open>OutsideMenu.do_register\<close>\<close>

text \<open>
  \<^verbatim>\<open>Client.input(prompt)\<close> prints the prompt and returns the next line of the client.
  \<open>answers\<close> are the lines the client still sends; when none is left the connection is
  lost, \<^verbatim>\<open>recv\<close> closes the client and \<^verbatim>\<open>SystemExit\<close> is raised: the result \<^verbatim>\<open>None\<close>.
\<close>

definition input_line ::
  "Client \<Rightarrow> string \<Rightarrow> string list \<Rightarrow> (string \<times> string list) option \<times> wire" where
  "input_line client prompt answers =
     (case answers of
        [] \<Rightarrow> (None, print_to client prompt)
      | a # rest \<Rightarrow> (Some (a, rest), print_to client prompt))"

text \<open>The banner of \<^verbatim>\<open>check_terms_of_service\<close>, of which the model keeps the title.\<close>

definition terms_of_service :: string where
  "terms_of_service = ''TERMS OF SERVICE''"

text \<open>
  \<^verbatim>\<open>do_register\<close>, with \<^verbatim>\<open>check_terms_of_service\<close> and \<^verbatim>\<open>login_account\<close> inlined. The
  \<^verbatim>\<open>except:\<close> clause has no exception class, so it also catches the \<^verbatim>\<open>SystemExit\<close> of a
  lost connection: the account is deleted, and the \<^verbatim>\<open>print\<close> that follows raises
  \<^verbatim>\<open>SystemExit\<close> again, the client being closed. \<^verbatim>\<open>not bool(cls.ACCOUNTS)\<close> is true of
  the empty dictionary.
\<close>

definition do_register ::
  "Client \<Rightarrow> string list \<Rightarrow> string list \<Rightarrow> statics \<Rightarrow> (error + reply) \<times> statics \<times> wire" where
  "do_register client args answers S =
     (case input_line client ''Do you agree?'' answers of
        (None, w0) \<Rightarrow> (Inl SystemExit, S, print_to client terms_of_service @ w0)
      | (Some (agree, answers1), w0) \<Rightarrow>
          if agree \<notin> set [''yes'', ''true'', ''1'']
          then (Inr Pop, S, print_to client terms_of_service @ w0)
          else
            (case (if args \<noteq> [] then (Some (hd args, answers1), [])
                   else input_line client ''Username:'' answers1) of
               (None, w1) \<Rightarrow> (Inl SystemExit, S, print_to client terms_of_service @ w0 @ w1)
             | (Some (name', answers2), w1) \<Rightarrow>
                 (let w = print_to client terms_of_service @ w0 @ w1
                  in if length (split_str name') > 1
                     then (Inr Continue, S, w @ print_to client ''Username may not have whitespace!'')
                     else if name' \<in> fst ` set (ACCOUNTS S)
                     then (Inr Continue, S, w @ print_to client ''Account already exists!'')
                     else
                       (let account = Account_new (ACCOUNTS S = []);
                            S1 = S\<lparr>ACCOUNTS := AList.update name' account (ACCOUNTS S)\<rparr>
                        in case (if length args > 1 then (Some (args ! 1, answers2), [])
                                 else input_line client ''Password:'' answers2) of
                             (None, w2) \<Rightarrow>
                               (Inl SystemExit,
                                S1\<lparr>ACCOUNTS := AList.delete name' (ACCOUNTS S1)\<rparr>, w @ w2)
                           | (Some (word, answers3), w2) \<Rightarrow>
                               if length (split_str word) = 1 then
                                 (Inr (Push (InsideMenu (client\<lparr>name := name'\<rparr>))),
                                  S1\<lparr>ACCOUNTS := AList.update name'
                                        (account\<lparr>Account.password := word, online := True\<rparr>)
                                        (ACCOUNTS S1)\<rparr>,
                                  w @ w2)
                               else
                                 (Inr Continue,
                                  S1\<lparr>ACCOUNTS := AList.delete name' (ACCOUNTS S1)\<rparr>,
                                  w @ w2 @ print_to client ''Password may not have whitespace!'')))))"

section \<open>Notions used in the statements\<close>

text \<open>
  The capacity of the history, as \<^verbatim>\<open>add_line\<close> computes it: \<open>buffer_size\<close> capped by the
  built-in limit, and the limit itself when \<open>buffer_size\<close> is \<^verbatim>\<open>None\<close>.
\<close>

definition effective_capacity :: "ChannelServer \<Rightarrow> nat" where
  "effective_capacity self =
     (case buffer_size self of None \<Rightarrow> builtin_buffer_limit
      | Some n \<Rightarrow> min n builtin_buffer_limit)"

text \<open>
  \<^verbatim>\<open>InsideMenu.get_channels\<close>: the channels that still have a name in
  \<^verbatim>\<open>CHANNEL_NAMES\<close>. These are the channels \<^const>\<open>clean_name_from_channels\<close> visits.
\<close>

definition get_channels :: "statics \<Rightarrow> ChannelServer list" where
  "get_channels S =
     concat (map (\<lambda>index. case map_of (CHANNELS S) index of
                             None \<Rightarrow> [] | Some channel \<Rightarrow> [channel])
               (map snd (CHANNEL_NAMES S)))"

text \<open>
  A mute dictionary as the code keeps it: each key once, and in each muter list each
  name once (\<^verbatim>\<open>add_mute\<close> appends a name only if it is not in the list).
\<close>

definition muters_ok :: "(string \<times> string list) list \<Rightarrow> bool" where
  "muters_ok m2m \<longleftrightarrow> distinct (map fst m2m) \<and> (\<forall>(k, ms) \<in> set m2m. distinct ms)"

definition store_ok :: "(nat \<times> ChannelServer) list \<Rightarrow> bool" where
  "store_ok chans \<longleftrightarrow> (\<forall>(i, ch) \<in> set chans. muters_ok (muted_to_muter ch))"

text \<open>
  A channel that does not mention the name \<open>n\<close>: not in \<open>banned\<close>, not a key of
  \<open>muted_to_muter\<close> and in none of its muter lists.
\<close>

definition cleaned :: "string \<Rightarrow> ChannelServer \<Rightarrow> bool" where
  "cleaned n ch \<longleftrightarrow> n \<notin> set (banned ch) \<and> n \<notin> fst ` set (muted_to_muter ch)
     \<and> (\<forall>(k, ms) \<in> set (muted_to_muter ch). n \<notin> set ms)"

subsection \<open>Example states\<close>

text \<open>
  Three accounts, of which \<open>alice\<close> is the administrator, and the channel \<open>main\<close> in
  which \<open>alice\<close> has kicked and banned \<open>bob\<close>; \<open>alice\<close> has muted \<open>bob\<close> and \<open>carol\<close>,
  and \<open>bob\<close> has muted \<open>carol\<close>.
\<close>

definition example_state :: statics where
  "example_state =
     \<lparr>BLOCKED = [],
      ACCOUNTS =
        [(''alice'', (Account_new True)\<lparr>contacts := [''bob'', ''carol'']\<rparr>),
         (''bob'', Account_new False),
         (''carol'', (Account_new False)\<lparr>contacts := [''bob'']\<rparr>)],
      NEXT_CHANNEL = 2,
      CHANNEL_NAMES = [(''main'', 1)],
      CHANNELS =
        [(1, (ChannelServer_new ''main'' ''alice'')
               \<lparr>muted_to_muter := [(''bob'', [''alice'']), (''carol'', [''bob'', ''alice''])],
                kicked := [''bob''], banned := [''bob'']\<rparr>)]\<rparr>"

definition alice :: Client where
  "alice = \<lparr>oid = 1, closed = False, address = ''10.0.0.1'', name = ''alice''\<rparr>"

definition bob :: Client where
  "bob = \<lparr>oid = 2, closed = False, address = ''10.0.0.2'', name = ''bob''\<rparr>"

definition carol :: Client where
  "carol = \<lparr>oid = 3, closed = False, address = ''10.0.0.3'', name = ''carol''\<rparr>"

text \<open>The channel \<open>main\<close> of \<open>alice\<close>, new, with the three clients connected.\<close>

definition example_channel :: ChannelServer where
  "example_channel =
     connect 13 carol (connect 12 bob (connect 11 alice (ChannelServer_new ''main'' ''alice'')))"

text \<open>The same channel after \<open>bob\<close> has run \<^verbatim>\<open>:mute add alice\<close>.\<close>

definition example_muted :: ChannelServer where
  "example_muted = fst (add_mute (ACCOUNTS example_state) ''alice'' bob example_channel)"

text \<open>
  The registries after \<open>n\<close> \<^verbatim>\<open>admin\<close> commands of one client. Between two of them the
  client is popped to the outside menu and logs in again, which changes nothing but
  the \<open>online\<close> flag of its account, back and forth.
\<close>

fun admin_attempts :: "nat \<Rightarrow> Client \<Rightarrow> statics \<Rightarrow> statics" where
  "admin_attempts 0 client S = S"
| "admin_attempts (Suc n) client S = fst (snd (do_admin client (admin_attempts n client S)))"

text \<open>A client that has not logged in.\<close>

definition dave :: Client where
  "dave = \<lparr>oid = 4, closed = False, address = ''10.0.0.4'', name = []\<rparr>"

subsection \<open>Reachable states of a channel\<close>

text \<open>
  The states a channel goes through: it is created by \<^verbatim>\<open>ChannelServer(name, owner)\<close>
  and changed by the operations above, for any clients, arguments and account
  registry. The rule \<open>settings\<close> stands for the operations that only assign the name,
  the owner, the password, the status or the name of the administrator at work
  (\<^verbatim>\<open>dispatch\<close>, the setup dialogue, \<^verbatim>\<open>do_owner\<close>, \<^verbatim>\<open>do_password\<close>, \<^verbatim>\<open>do_rename\<close>,
  \<^verbatim>\<open>do_delete\<close>); \<^verbatim>\<open>do_finalize\<close> is such an assignment followed by what \<^verbatim>\<open>do_reset\<close>
  does. The rule \<open>setstate\<close> is \<^verbatim>\<open>__setstate__\<close>, which restores a saved channel with
  nobody connected.
\<close>

inductive reachable :: "ChannelServer \<Rightarrow> bool" where
  new: "reachable (ChannelServer_new channel_name' owner')"
| settings: "reachable self \<Longrightarrow>
     reachable (self\<lparr>channel_name := n, owner := w, password := p, status := s, admin_name := a\<rparr>)"
| setstate: "reachable self \<Longrightarrow> reachable (self\<lparr>connected_clients := []\<rparr>)"
| connect: "reachable self \<Longrightarrow> reachable (connect ident client self)"
| handle_finally: "reachable self \<Longrightarrow> reachable (handle_finally ident client self)"
| message_loop_turn: "reachable self \<Longrightarrow> reachable (fst (snd (message_loop_turn client line self)))"
| do_buffer: "reachable self \<Longrightarrow> reachable (do_buffer size' self)"
| do_replay: "reachable self \<Longrightarrow> reachable (do_replay size' self)"
| do_purge: "reachable self \<Longrightarrow> reachable (fst (do_purge client self))"
| do_close: "reachable self \<Longrightarrow> reachable (fst (do_close client self))"
| do_reset: "reachable self \<Longrightarrow> reachable (fst (do_reset client self))"
| add_mute: "reachable self \<Longrightarrow> reachable (fst (add_mute accs muted client self))"
| del_mute: "reachable self \<Longrightarrow> reachable (fst (del_mute muted client self))"
| do_kick: "reachable self \<Longrightarrow> reachable (fst (do_kick accs client args verbose answer self))"
| add_ban: "reachable self \<Longrightarrow> reachable (fst (add_ban accs client name' self))"
| del_ban: "reachable self \<Longrightarrow> reachable (fst (del_ban client name' self))"
| clean_channel: "reachable self \<Longrightarrow> reachable (fst (clean_channel name' self))"

text \<open>What the ban list and the mute dictionary satisfy in every reachable state.\<close>

definition channel_inv :: "ChannelServer \<Rightarrow> bool" where
  "channel_inv self \<longleftrightarrow> distinct (banned self) \<and> muters_ok (muted_to_muter self)"

text \<open>
  The channel after \<open>alice\<close> has run \<^verbatim>\<open>:mute add alice\<close>, and after she has run
  \<^verbatim>\<open>:ban add bob\<close>.
\<close>

definition example_self_muted :: ChannelServer where
  "example_self_muted = fst (add_mute (ACCOUNTS example_state) ''alice'' alice example_channel)"

definition example_banned :: ChannelServer where
  "example_banned = fst (add_ban (ACCOUNTS example_state) alice ''bob'' example_channel)"

section \<open>Properties of the line transport\<close>

lemma CR_neq_LF [simp]: "CR \<noteq> LF" "LF \<noteq> CR"
  by (simp_all add: CR_def LF_def)

lemma replace_Nil [simp]: "old \<noteq> [] \<Longrightarrow> replace old r [] = []"
  by (simp add: replace.simps)

lemma replace_one_Cons [simp]:
  "replace [a] r (c # cs) = (if c = a then r @ replace [a] r cs else c # replace [a] r cs)"
  by (subst replace.simps) simp

lemma replace_two_single [simp]:
  "replace [a, b] r [c] = [c]"
  by (subst replace.simps) simp

lemma replace_two_Cons [simp]:
  "replace [a, b] r (c # d # ds) =
     (if c = a \<and> d = b then r @ replace [a, b] r ds else c # replace [a, b] r (d # ds))"
  by (subst replace.simps) auto

text \<open>The three passes of \<^const>\<open>send\<close>, composed.\<close>

definition passes :: "bytes \<Rightarrow> bytes" where
  "passes text = replace [LF] [CR, LF] (replace [CR] [LF] (replace [CR, LF] [LF] text))"

lemma passes_normalise: "passes s = normalise s"
  unfolding passes_def
  by (induction s rule: normalise.induct) auto

lemma framed_Cons_other: "c \<noteq> CR \<Longrightarrow> c \<noteq> LF \<Longrightarrow> framed (c # s) = framed s"
  by (cases s) simp_all

lemma framed_normalise: "framed (normalise s)"
  by (induction s rule: normalise.induct) (auto simp: framed_Cons_other)

lemma send_passes: "send self text = (if closed self then Inl SystemExit else Inr (passes text))"
  by (simp add: send_def passes_def SEPARATOR_def Let_def upt_rec numeral_2_eq_2)

text \<open>
  C8. Whatever bytes \<^verbatim>\<open>send\<close> is given, the payload it writes on an open transport is
  the input with every CR LF pair, lone CR and lone LF replaced by exactly one CR LF;
  in the payload no CR stands without its LF and no LF without its CR. On a closed
  transport \<^verbatim>\<open>send\<close> writes nothing and raises \<^verbatim>\<open>SystemExit\<close>.
\<close>

theorem send_normalises:
  "send self text = (if closed self then Inl SystemExit else Inr (normalise text))
   \<and> framed (normalise text)"
  by (simp add: send_passes passes_normalise framed_normalise)

section \<open>Deleting an account\<close>

lemma removeAll_remove1: "removeAll x (remove1 x xs) = removeAll x xs"
  by (induction xs) auto

lemma remove_every_removeAll: "remove_every x xs = removeAll x xs"
proof (induction x xs rule: remove_every.induct)
  case (1 name xs)
  show ?case
  proof (cases "name \<in> set xs")
    case True
    with 1 show ?thesis by (subst remove_every.simps) (simp add: removeAll_remove1)
  next
    case False
    then show ?thesis by (subst remove_every.simps) simp
  qed
qed

lemma update_present_keys: "map_of m k = Some v \<Longrightarrow> map fst (AList.update k v' m) = map fst m"
  by (simp add: AList.update_keys) (metis (no_types) domI dom_map_of_conv_image_fst)

lemma clean_muters_keys:
  "clean_muters n ks m = (m', None) \<Longrightarrow> map fst m' = map fst m"
proof (induction ks arbitrary: m)
  case Nil
  then show ?case by simp
next
  case (Cons k ks)
  then show ?case
    by (auto simp: Let_def update_present_keys split: option.splits if_splits)
qed

lemma set_update_dict:
  "distinct (map fst m) \<Longrightarrow> map_of m k = Some v \<Longrightarrow>
   set (AList.update k v' m) = insert (k, v') (set m - {(k, v)})"
  by (induction m) (auto simp: rev_image_eqI)

lemma set_delete_subset: "set (AList.delete k m) \<subseteq> set m"
  by (auto simp: AList.delete_eq)

lemma muters_ok_delete: "muters_ok m \<Longrightarrow> muters_ok (AList.delete k m)"
  unfolding muters_ok_def using set_delete_subset[of k m] AList.distinct_delete[of m k] by blast

lemma clean_muters_sub:
  "clean_muters n ks m = (m', e) \<Longrightarrow> muters_ok m \<Longrightarrow>
   muters_ok m' \<and> (\<forall>(k, ms') \<in> set m'. \<exists>ms. (k, ms) \<in> set m \<and> set ms' \<subseteq> set ms)"
proof (induction ks arbitrary: m)
  case Nil
  then show ?case by auto
next
  case (Cons k ks)
  show ?case
  proof (cases "map_of m k")
    case None
    with Cons.prems show ?thesis by auto
  next
    case (Some muter)
    have dm: "distinct (map fst m)" using Cons.prems(2) by (simp add: muters_ok_def)
    have dmu: "distinct muter" using Cons.prems(2) Some dm by (auto simp: muters_ok_def dest!: map_of_SomeD)
    show ?thesis
    proof (cases "n \<in> set muter")
      case False
      with Some Cons show ?thesis by simp
    next
      case True
      show ?thesis
      proof (cases "remove1 n muter = []")
        case True
        with \<open>n \<in> set muter\<close> Some Cons.prems have "m' = AList.delete k m" by (simp add: Let_def)
        then show ?thesis
          using muters_ok_delete[OF Cons.prems(2), of k] set_delete_subset[of k m] by auto
      next
        case False
        let ?m1 = "AList.update k (remove1 n muter) m"
        have ok1: "muters_ok ?m1"
          using Cons.prems(2) dmu Some
          by (auto simp: muters_ok_def AList.distinct_update set_update_dict)
        from False \<open>n \<in> set muter\<close> Some Cons.prems
        have "clean_muters n ks ?m1 = (m', e)" by (simp add: Let_def)
        from Cons.IH[OF this ok1]
        have a: "muters_ok m'" and b: "\<forall>(k, ms') \<in> set m'. \<exists>ms. (k, ms) \<in> set ?m1 \<and> set ms' \<subseteq> set ms"
          by auto
        have "\<exists>ms. (k', ms) \<in> set m \<and> set ms' \<subseteq> set ms" if "(k', ms') \<in> set m'" for k' ms'
        proof -
          from b that obtain ms1 where ms1: "(k', ms1) \<in> set ?m1" "set ms' \<subseteq> set ms1" by auto
          from ms1(1) have "(k', ms1) = (k, remove1 n muter) \<or> (k', ms1) \<in> set m"
            by (auto simp: set_update_dict[OF dm Some])
          then show ?thesis
          proof
            assume "(k', ms1) = (k, remove1 n muter)"
            then have "(k', muter) \<in> set m" "set ms' \<subseteq> set muter"
              using Some ms1(2) set_remove1_subset[of n muter] by (auto dest: map_of_SomeD)
            then show ?thesis by blast
          next
            assume "(k', ms1) \<in> set m"
            with ms1(2) show ?thesis by blast
          qed
        qed
        with a show ?thesis by auto
      qed
    qed
  qed
qed


lemma clean_muters_clean:
  "clean_muters n ks m = (m', None) \<Longrightarrow> muters_ok m \<Longrightarrow> k \<in> set ks \<Longrightarrow>
   (k, ms) \<in> set m' \<Longrightarrow> n \<notin> set ms"
proof (induction ks arbitrary: m)
  case Nil
  then show ?case by simp
next
  case (Cons a ks)
  show ?case
  proof (cases "map_of m a")
    case None
    with Cons.prems show ?thesis by auto
  next
    case (Some muter)
    have dm: "distinct (map fst m)" using Cons.prems(2) by (simp add: muters_ok_def)
    have dmu: "distinct muter" using Cons.prems(2) Some dm by (auto simp: muters_ok_def dest!: map_of_SomeD)
    define m1 where "m1 = (if n \<in> set muter then AList.update a (remove1 n muter) m else m)"
    have step: "clean_muters n ks m1 = (m', None)"
      using Cons.prems(1) Some by (auto simp: m1_def Let_def split: if_splits)
    have ok1: "muters_ok m1"
      using Cons.prems(2) dmu Some
      by (auto simp: m1_def muters_ok_def AList.distinct_update set_update_dict)
    have ent: "\<exists>v. (a, v) \<in> set m1 \<and> n \<notin> set v"
    proof (cases "n \<in> set muter")
      case True
      then have "(a, remove1 n muter) \<in> set m1"
        by (simp add: m1_def set_update_dict[OF dm Some])
      moreover have "n \<notin> set (remove1 n muter)" using dmu by simp
      ultimately show ?thesis by blast
    next
      case False
      then show ?thesis using Some by (auto simp: m1_def dest: map_of_SomeD)
    qed
    show ?thesis
    proof (cases "k \<in> set ks")
      case True
      from Cons.IH[OF step ok1 True Cons.prems(4)] show ?thesis .
    next
      case False
      with Cons.prems(3) have ka: "k = a" by simp
      from clean_muters_sub[OF step ok1] Cons.prems(4)
      obtain v1 where v1: "(k, v1) \<in> set m1" "set ms \<subseteq> set v1" by auto
      from ent obtain v where v: "(a, v) \<in> set m1" "n \<notin> set v" by auto
      from ok1 have "distinct (map fst m1)" by (simp add: muters_ok_def)
      with v1(1) v(1) ka have "v1 = v" by (metis eq_key_imp_eq_value)
      with v1(2) v(2) show ?thesis by auto
    qed
  qed
qed

lemma clean_channel_cleaned:
  assumes "clean_channel n ch = (ch', None)" "muters_ok (muted_to_muter ch)"
  shows "cleaned n ch'"
proof -
  define m1 where "m1 = AList.delete n (muted_to_muter ch)"
  have m1: "(if n \<in> fst ` set (muted_to_muter ch) then AList.delete n (muted_to_muter ch) else muted_to_muter ch) = m1"
    by (simp add: m1_def)
  obtain m' where cm: "clean_muters n (map fst m1) m1 = (m', None)"
    and ch': "ch' = ch\<lparr>muted_to_muter := m', banned := remove_every n (banned ch)\<rparr>"
    using assms(1) unfolding clean_channel_def Let_def m1 by (auto split: prod.splits)
  have ok1: "muters_ok m1"
    using assms(2) unfolding m1_def by (rule muters_ok_delete)
  have keys: "map fst m' = map fst m1" using cm by (rule clean_muters_keys)
  have "n \<notin> fst ` set m1" by (simp add: m1_def AList.delete_notin_dom)
  then have a: "n \<notin> fst ` set m'" using keys by (metis set_map)
  have b: "n \<notin> set ms" if "(k, ms) \<in> set m'" for k ms
  proof -
    from that have "k \<in> set (map fst m')" by force
    then have "k \<in> set (map fst m1)" using keys by simp
    from clean_muters_clean[OF cm ok1 this that] show ?thesis .
  qed
  show ?thesis
    using a b by (auto simp: cleaned_def ch' remove_every_removeAll)
qed


lemma clean_channel_keeps:
  assumes "clean_channel n ch = (ch', e)" "muters_ok (muted_to_muter ch)"
  shows "muters_ok (muted_to_muter ch')" "kicked ch' = kicked ch" "cleaned n ch \<Longrightarrow> cleaned n ch'"
proof -
  define m1 where "m1 = AList.delete n (muted_to_muter ch)"
  have m1: "(if n \<in> fst ` set (muted_to_muter ch) then AList.delete n (muted_to_muter ch) else muted_to_muter ch) = m1"
    by (simp add: m1_def)
  obtain m' where cm: "clean_muters n (map fst m1) m1 = (m', e)"
    and ch': "ch' = ch\<lparr>muted_to_muter := m', banned := remove_every n (banned ch)\<rparr>"
    using assms(1) unfolding clean_channel_def Let_def m1 by (auto split: prod.splits)
  have ok1: "muters_ok m1"
    using assms(2) unfolding m1_def by (rule muters_ok_delete)
  note sub = clean_muters_sub[OF cm ok1]
  show "muters_ok (muted_to_muter ch')" using sub by (simp add: ch')
  show "kicked ch' = kicked ch" by (simp add: ch')
  show "cleaned n ch'" if c: "cleaned n ch"
  proof -
    have sub': "\<exists>ms. (k, ms) \<in> set (muted_to_muter ch) \<and> set ms' \<subseteq> set ms"
      if "(k, ms') \<in> set m'" for k ms'
    proof -
      from sub that obtain ms where "(k, ms) \<in> set m1" "set ms' \<subseteq> set ms" by auto
      moreover have "set m1 \<subseteq> set (muted_to_muter ch)"
        unfolding m1_def by (rule set_delete_subset)
      ultimately show ?thesis by auto
    qed
    have a: "n \<notin> set (banned ch')" by (simp add: ch' remove_every_removeAll)
    have b: "n \<notin> fst ` set m'"
    proof
      assume "n \<in> fst ` set m'"
      then obtain ms' where "(n, ms') \<in> set m'" by auto
      from sub'[OF this] have "n \<in> fst ` set (muted_to_muter ch)" by force
      with c show False by (simp add: cleaned_def)
    qed
    have d: "n \<notin> set ms'" if "(k, ms') \<in> set m'" for k ms'
    proof -
      from sub'[OF that] obtain ms where ms: "(k, ms) \<in> set (muted_to_muter ch)" "set ms' \<subseteq> set ms"
        by auto
      from c ms(1) have "n \<notin> set ms" by (auto simp: cleaned_def)
      with ms(2) show ?thesis by auto
    qed
    show ?thesis
      unfolding cleaned_def using a b d by (auto simp: ch')
  qed
qed

lemma set_update_subset: "set (AList.update k v m) \<subseteq> insert (k, v) (set m)"
  by (induction m) auto

lemma map_update_same:
  "map_of m k = Some v \<Longrightarrow> f v' = f v \<Longrightarrow> map (f \<circ> snd) (AList.update k v' m) = map (f \<circ> snd) m"
  by (induction m) (auto split: if_splits)

lemma clean_channels_inv:
  "clean_channels n is chans = (chans', e) \<Longrightarrow> store_ok chans \<Longrightarrow>
   store_ok chans' \<and> map (kicked \<circ> snd) chans' = map (kicked \<circ> snd) chans
   \<and> map fst chans' = map fst chans
   \<and> (\<forall>i ch. map_of chans i = Some ch \<and> cleaned n ch
         \<longrightarrow> (\<exists>ch'. map_of chans' i = Some ch' \<and> cleaned n ch'))"
proof (induction "is" arbitrary: chans)
  case Nil
  then show ?case by simp
next
  case (Cons a "is")
  show ?case
  proof (cases "map_of chans a")
    case None
    with Cons show ?thesis by simp
  next
    case (Some c)
    obtain c' e1 where cc: "clean_channel n c = (c', e1)" by (cases "clean_channel n c")
    have okc: "muters_ok (muted_to_muter c)"
      using Cons.prems(2) Some by (auto simp: store_ok_def dest!: map_of_SomeD)
    note keeps = clean_channel_keeps[OF cc okc]
    let ?c1 = "AList.update a c' chans"
    have ok1: "store_ok ?c1"
      using Cons.prems(2) keeps(1) set_update_subset[of a c' chans] by (auto simp: store_ok_def)
    have k1: "map (kicked \<circ> snd) ?c1 = map (kicked \<circ> snd) chans"
      using Some keeps(2) by (rule map_update_same)
    have f1: "map fst ?c1 = map fst chans" using Some by (rule update_present_keys)
    have p1: "\<exists>ch'. map_of ?c1 i = Some ch' \<and> cleaned n ch'" if "map_of chans i = Some ch" "cleaned n ch" for i ch
      using that Some keeps(3) by (cases "i = a") (auto simp: AList.update_conv')
    show ?thesis
    proof (cases e1)
      case None
      with Cons.prems(1) Some cc have "clean_channels n is ?c1 = (chans', e)" by simp
      from Cons.IH[OF this ok1]
      have i1: "store_ok chans'"
        and i2: "map (kicked \<circ> snd) chans' = map (kicked \<circ> snd) ?c1"
        and i3: "map fst chans' = map fst ?c1"
        and i4: "\<And>i ch. map_of ?c1 i = Some ch \<Longrightarrow> cleaned n ch
                  \<Longrightarrow> \<exists>ch'. map_of chans' i = Some ch' \<and> cleaned n ch'"
        by blast+
      have "\<exists>ch'. map_of chans' i = Some ch' \<and> cleaned n ch'"
        if "map_of chans i = Some ch" "cleaned n ch" for i ch
        using p1[OF that] i4 by blast
      with i1 i2 i3 k1 f1 show ?thesis by presburger
    next
      case (Some x)
      with Cons.prems(1) \<open>map_of chans a = Some c\<close> cc have "chans' = ?c1" by simp
      with ok1 k1 f1 p1 show ?thesis by blast
    qed
  qed
qed

lemma clean_channels_cleaned:
  "clean_channels n is chans = (chans', None) \<Longrightarrow> store_ok chans \<Longrightarrow> i \<in> set is \<Longrightarrow>
   map_of chans' i = Some ch \<Longrightarrow> cleaned n ch"
proof (induction "is" arbitrary: chans)
  case Nil
  then show ?case by simp
next
  case (Cons a "is")
  show ?case
  proof (cases "map_of chans a")
    case None
    with Cons.prems(1) have rec: "clean_channels n is chans = (chans', None)" by simp
    show ?thesis
    proof (cases "i \<in> set is")
      case True
      from Cons.IH[OF rec Cons.prems(2) True Cons.prems(4)] show ?thesis .
    next
      case False
      with Cons.prems(3) have "i = a" by simp
      moreover from clean_channels_inv[OF rec Cons.prems(2)] have "map fst chans' = map fst chans" by simp
      then have "map_of chans' a = None" using None by (metis map_of_eq_None_iff set_map)
      ultimately show ?thesis using Cons.prems(4) by simp
    qed
  next
    case (Some c)
    obtain c' e1 where cc: "clean_channel n c = (c', e1)" by (cases "clean_channel n c")
    have e1: "e1 = None" using Cons.prems(1) Some cc by (cases e1) auto
    have okc: "muters_ok (muted_to_muter c)"
      using Cons.prems(2) Some by (auto simp: store_ok_def dest!: map_of_SomeD)
    note keeps = clean_channel_keeps[OF cc okc]
    let ?c1 = "AList.update a c' chans"
    have ok1: "store_ok ?c1"
      using Cons.prems(2) keeps(1) set_update_subset[of a c' chans] by (auto simp: store_ok_def)
    have rec: "clean_channels n is ?c1 = (chans', None)"
      using Cons.prems(1) Some cc e1 by simp
    show ?thesis
    proof (cases "i \<in> set is")
      case True
      from Cons.IH[OF rec ok1 True Cons.prems(4)] show ?thesis .
    next
      case False
      with Cons.prems(3) have ia: "i = a" by simp
      have "cleaned n c'" using cc okc e1 clean_channel_cleaned by simp
      moreover have "map_of ?c1 a = Some c'" by (simp add: AList.update_conv')
      ultimately obtain ch' where "map_of chans' a = Some ch'" "cleaned n ch'"
        using clean_channels_inv[OF rec ok1] by blast
      with ia Cons.prems(4) show ?thesis by simp
    qed
  qed
qed


lemma delete_account_example:
  "delete_account ''bob'' example_state =
     (example_state\<lparr>
        ACCOUNTS := [(''alice'', (Account_new True)\<lparr>contacts := [''carol'']\<rparr>),
                     (''carol'', Account_new False)],
        CHANNELS := [(1, (ChannelServer_new ''main'' ''alice'')
                           \<lparr>muted_to_muter := [(''carol'', [''alice''])],
                            kicked := [''bob''], banned := []\<rparr>)]\<rparr>, None)"
  by (simp add: example_state_def delete_account_def clean_name_from_channels_def
      clean_channel_def Account_new_def ChannelServer_new_def remove_every.simps Let_def)

text \<open>
  The cleanup of a name that is the only muter of somebody: the emptied list is
  deleted from the dictionary that is being iterated, \<^verbatim>\<open>RuntimeError\<close> is raised, and
  the muter lists not yet visited still hold the name.
\<close>

lemma delete_account_sole_muter_raises:
  "snd (delete_account ''alice'' example_state) = Some RuntimeError
   \<and> map muted_to_muter (get_channels (fst (delete_account ''alice'' example_state)))
       = [[(''carol'', [''bob'', ''alice''])]]"
  by (simp add: example_state_def delete_account_def clean_name_from_channels_def
      clean_channel_def get_channels_def Account_new_def ChannelServer_new_def
      remove_every.simps Let_def)

text \<open>
  C1, as stated, fails: \<^verbatim>\<open>clean_name_from_channels\<close> never touches \<open>kicked\<close>. After the
  account \<open>bob\<close> is deleted, without error, the channel \<open>main\<close> still has \<open>bob\<close> on its
  \<open>kicked\<close> list.
\<close>

theorem delete_account_keeps_kicked:
  "snd (delete_account ''bob'' example_state) = None
   \<and> map kicked (get_channels (fst (delete_account ''bob'' example_state))) = [[''bob'']]"
  unfolding delete_account_example
  by (simp add: get_channels_def example_state_def ChannelServer_new_def)

text \<open>
  C1, amended. Let \<open>A\<close> be a registered account, let every contact list and every muter
  list hold each name once, and let \<^verbatim>\<open>delete_account(A)\<close> return without error. Then
  \<open>A\<close> is no key of the account registry and in no contact list, and in every channel
  that has a name in the channel registry \<open>A\<close> is not in \<open>banned\<close>, is no key of
  \<open>muted_to_muter\<close> and is in no muter list. The \<open>kicked\<close> lists are left as they were.
\<close>

theorem delete_account_purges:
  assumes "A \<in> fst ` set (ACCOUNTS S)"
    and "\<forall>(k, a) \<in> set (ACCOUNTS S). distinct (contacts a)"
    and "store_ok (CHANNELS S)"
    and "delete_account A S = (S', None)"
  shows "A \<notin> fst ` set (ACCOUNTS S')
    \<and> (\<forall>(k, a) \<in> set (ACCOUNTS S'). A \<notin> set (contacts a))
    \<and> (\<forall>ch \<in> set (get_channels S'). cleaned A ch)
    \<and> map (kicked \<circ> snd) (CHANNELS S') = map (kicked \<circ> snd) (CHANNELS S)"
proof -
  define accs where "accs = map (\<lambda>(k, account).
                        (k, if A \<in> set (contacts account)
                            then account\<lparr>contacts := remove1 A (contacts account)\<rparr>
                            else account))
                   (AList.delete A (ACCOUNTS S))"
  obtain chans where cc: "clean_channels A (map snd (CHANNEL_NAMES S)) (CHANNELS S) = (chans, None)"
    and S': "S' = S\<lparr>ACCOUNTS := accs, CHANNELS := chans\<rparr>"
    using assms(1,4) unfolding delete_account_def clean_name_from_channels_def accs_def
    by (auto split: prod.splits)
  have keys: "map fst accs = map fst (AList.delete A (ACCOUNTS S))"
    by (simp add: accs_def comp_def case_prod_unfold)
  have a: "A \<notin> fst ` set (ACCOUNTS S')"
  proof -
    have "A \<notin> set (map fst (AList.delete A (ACCOUNTS S)))"
      using AList.delete_notin_dom[of A "ACCOUNTS S"] by simp
    then show ?thesis using keys by (simp add: S' del: set_map) (metis set_map)
  qed
  have b: "A \<notin> set (contacts a)" if "(k, a) \<in> set (ACCOUNTS S')" for k a
  proof -
    from that obtain a0 where a0: "(k, a0) \<in> set (ACCOUNTS S)"
      and a: "a = (if A \<in> set (contacts a0) then a0\<lparr>contacts := remove1 A (contacts a0)\<rparr> else a0)"
      using set_delete_subset[of A "ACCOUNTS S"] by (auto simp: S' accs_def)
    from assms(2) a0 have "distinct (contacts a0)" by auto
    then show ?thesis by (simp add: a)
  qed
  have c: "cleaned A ch" if "ch \<in> set (get_channels S')" for ch
  proof -
    from that have "\<exists>i \<in> set (map snd (CHANNEL_NAMES S)). map_of chans i = Some ch"
      by (force simp: get_channels_def S' split: option.splits)
    then obtain i where "i \<in> set (map snd (CHANNEL_NAMES S))" "map_of chans i = Some ch"
      by blast
    with clean_channels_cleaned[OF cc assms(3)] show ?thesis by blast
  qed
  have d: "map (kicked \<circ> snd) (CHANNELS S') = map (kicked \<circ> snd) (CHANNELS S)"
    using clean_channels_inv[OF cc assms(3)] by (simp add: S')
  from a b c d show ?thesis by blast
qed

theorem delete_account_purges_witness:
  "delete_account ''bob'' example_state = (fst (delete_account ''bob'' example_state), None)
   \<and> ''bob'' \<in> fst ` set (ACCOUNTS example_state)
   \<and> ''bob'' \<notin> fst ` set (ACCOUNTS (fst (delete_account ''bob'' example_state)))
   \<and> list_all (\<lambda>(k, a). ''bob'' \<notin> set (contacts a))
        (ACCOUNTS (fst (delete_account ''bob'' example_state)))
   \<and> list_all (cleaned ''bob'') (get_channels (fst (delete_account ''bob'' example_state)))"
proof -
  have h1: "''bob'' \<in> fst ` set (ACCOUNTS example_state)"
    by (simp add: example_state_def)
  have h2: "\<forall>(k, a) \<in> set (ACCOUNTS example_state). distinct (contacts a)"
    by (simp add: example_state_def Account_new_def)
  have h3: "store_ok (CHANNELS example_state)"
    by (simp add: example_state_def store_ok_def muters_ok_def ChannelServer_new_def)
  have h4: "delete_account ''bob'' example_state = (fst (delete_account ''bob'' example_state), None)"
    by (simp add: delete_account_example)
  from delete_account_purges [OF h1 h2 h3 h4] h1 h4 show ?thesis
    by (simp only: list_all_iff case_prod_unfold) blast
qed

section \<open>History of a channel\<close>

lemma add_line_buffer:
  "buffer (snd (add_line n l self)) =
     (if effective_capacity self = 0 then buffer self
      else drop (Suc (length (buffer self)) - effective_capacity self)
             (buffer self @ [\<lparr>source = n, message = l\<rparr>]))"
  by (auto simp: add_line_def effective_capacity_def Let_def)

lemma add_line_frame:
  "snd (add_line n l self) = self\<lparr>buffer := buffer (snd (add_line n l self))\<rparr>"
  by (simp add: add_line_def Let_def)

lemma fst_add_line: "fst (add_line n l self) = \<lparr>source = n, message = l\<rparr>"
  by (simp add: add_line_def Let_def)

lemma broadcast_buffer: "broadcast c l e (self\<lparr>buffer := b\<rparr>) = broadcast c l e self"
  by (simp add: broadcast_def)

lemma message_loop_turn_said:
  assumes "name client \<notin> set (kicked self)" "take 1 l \<noteq> '':''"
  shows "message_loop_turn client l self =
          (Said, snd (add_line (name client) l self),
           broadcast client \<lparr>source = name client, message = l\<rparr> True self)"
proof -
  have "broadcast client (fst (add_line (name client) l self)) True (snd (add_line (name client) l self))
       = broadcast client \<lparr>source = name client, message = l\<rparr> True self"
    by (subst add_line_frame) (simp only: broadcast_buffer fst_add_line)
  then show ?thesis
    using assms by (cases "add_line (name client) l self") (simp add: message_loop_turn_def)
qed

text \<open>
  C2, as stated, fails. The owner sets the buffer size to 0 after a line was stored;
  the next line is not stored, but the buffer keeps its one line, above the capacity 0.
\<close>

theorem add_line_capacity_zero_keeps_buffer:
  "effective_capacity
     (snd (add_line ''alice'' ''L2''
        (do_buffer (Some 0) (snd (add_line ''alice'' ''L1'' example_channel))))) = 0
   \<and> length (buffer
     (snd (add_line ''alice'' ''L2''
        (do_buffer (Some 0) (snd (add_line ''alice'' ''L1'' example_channel)))))) = 1"
  by (simp add: add_line_def do_buffer_def effective_capacity_def example_channel_def connect_def
      ChannelServer_new_def builtin_buffer_limit_def Let_def)

text \<open>
  C2, amended. After \<^verbatim>\<open>add_line\<close>: when the capacity is 0 the channel is unchanged, so
  the line is not stored and never replayed (what the buffer held before stays); when
  the capacity is positive the buffer is no longer than the capacity and ends with the
  new line. In both cases the turn of \<^verbatim>\<open>message_loop\<close> that reads a line which is no
  command, from a client not kicked, broadcasts it with echo.
\<close>

theorem add_line_capacity:
  "(if effective_capacity self = 0 then snd (add_line n l self) = self
    else length (buffer (snd (add_line n l self))) \<le> effective_capacity self
       \<and> last (buffer (snd (add_line n l self))) = \<lparr>source = n, message = l\<rparr>)
   \<and> (name client \<notin> set (kicked self) \<longrightarrow> take 1 l \<noteq> '':'' \<longrightarrow>
        message_loop_turn client l self =
          (Said, snd (add_line (name client) l self),
           broadcast client \<lparr>source = name client, message = l\<rparr> True self))"
proof -
  have a: "snd (add_line n l self) = self" if "effective_capacity self = 0"
    using that by (simp add: add_line_def effective_capacity_def Let_def)
  have b: "length (buffer (snd (add_line n l self))) \<le> effective_capacity self"
    if "effective_capacity self \<noteq> 0"
    using that by (simp add: add_line_buffer)
  have c: "last (buffer (snd (add_line n l self))) = \<lparr>source = n, message = l\<rparr>"
    if "effective_capacity self \<noteq> 0"
    using that by (simp add: add_line_buffer)
  note d = message_loop_turn_said [of client self l]
  from a b c d show ?thesis by simp
qed


text \<open>The statement at a channel of capacity 0, where \<open>alice\<close> says \<open>hello\<close>.\<close>

theorem add_line_capacity_witness:
  "name alice \<notin> set (kicked (do_buffer (Some 0) example_channel))
   \<and> take 1 ''hello'' \<noteq> '':''
   \<and> effective_capacity (do_buffer (Some 0) example_channel) = 0
   \<and> snd (add_line ''alice'' ''hello'' (do_buffer (Some 0) example_channel))
       = do_buffer (Some 0) example_channel
   \<and> message_loop_turn alice ''hello'' (do_buffer (Some 0) example_channel)
       = (Said, do_buffer (Some 0) example_channel,
          [(1, ''[alice] hello''), (2, ''[alice] hello''), (3, ''[alice] hello'')], None)"
proof -
  have k: "name alice \<notin> set (kicked (do_buffer (Some 0) example_channel))"
    by (simp add: do_buffer_def example_channel_def connect_def ChannelServer_new_def)
  have t: "take 1 ''hello'' \<noteq> '':''" by simp
  have z: "effective_capacity (do_buffer (Some 0) example_channel) = 0"
    by (simp add: do_buffer_def effective_capacity_def)
  have n: "name alice = ''alice''" by (simp add: alice_def)
  have b: "broadcast alice \<lparr>source = ''alice'', message = ''hello''\<rparr> True
             (do_buffer (Some 0) example_channel)
           = ([(1, ''[alice] hello''), (2, ''[alice] hello''), (3, ''[alice] hello'')], None)"
    by (simp add: broadcast_def do_buffer_def example_channel_def connect_def
        ChannelServer_new_def get_default_def accept_def echo_text_def alice_def bob_def
        carol_def Let_def)
  from add_line_capacity [of "do_buffer (Some 0) example_channel" "''alice''" "''hello''" alice]
  show ?thesis
    using k t z b by (simp add: n)
qed

section \<open>Replay\<close>

lemma drop_last_lines: "drop (length xs - n) xs = rev (take n (rev xs))"
  by (simp add: take_rev)

text \<open>The channel of the replay scenario: \<open>alice\<close> has sent twelve lines.\<close>

lemma replay_scenario:
  "replay_buffer bob
     (connect 12 bob (fold (\<lambda>l ch. snd (add_line ''alice'' l ch))
        [''L1'', ''L2'', ''L3'', ''L4'', ''L5'', ''L6'', ''L7'', ''L8'', ''L9'', ''L10'',
         ''L11'', ''L12'']
        (connect 11 alice (ChannelServer_new ''main'' ''alice''))))
   = map (\<lambda>l. (2, ''[alice] '' @ l))
       [''L3'', ''L4'', ''L5'', ''L6'', ''L7'', ''L8'', ''L9'', ''L10'', ''L11'', ''L12'']"
  by (simp add: replay_buffer_def add_line_def connect_def
      ChannelServer_new_def builtin_buffer_limit_def print_to_def echo_text_def bob_def
      alice_def Let_def)

text \<open>
  C5. \<^verbatim>\<open>replay_buffer\<close> prints to the entering client, in buffer order, the whole
  buffer when \<open>replay_size\<close> is \<^verbatim>\<open>None\<close> and else its last \<open>replay_size\<close> lines (all of
  them when it has fewer; none when \<open>replay_size\<close> is 0). On a new channel, which
  replays 10 lines, \<open>bob\<close> entering after \<open>alice\<close> has sent \<open>L1\<close> to \<open>L12\<close> receives
  \<open>L3\<close> to \<open>L12\<close>.
\<close>

theorem replay_buffer_last:
  "replay_buffer client self =
     map (\<lambda>line. (oid client, echo_text line))
       (case replay_size self of None \<Rightarrow> buffer self
        | Some n \<Rightarrow> rev (take n (rev (buffer self))))
   \<and> replay_buffer bob
     (connect 12 bob (fold (\<lambda>l ch. snd (add_line ''alice'' l ch))
        [''L1'', ''L2'', ''L3'', ''L4'', ''L5'', ''L6'', ''L7'', ''L8'', ''L9'', ''L10'',
         ''L11'', ''L12'']
        (connect 11 alice (ChannelServer_new ''main'' ''alice''))))
   = map (\<lambda>l. (2, ''[alice] '' @ l))
       [''L3'', ''L4'', ''L5'', ''L6'', ''L7'', ''L8'', ''L9'', ''L10'', ''L11'', ''L12'']"
proof -
  have "concat (map (\<lambda>line. print_to client (echo_text line)) xs)
        = map (\<lambda>line. (oid client, echo_text line)) xs" for xs
    by (induction xs) (simp_all add: print_to_def)
  then have "replay_buffer client self =
     map (\<lambda>line. (oid client, echo_text line))
       (case replay_size self of None \<Rightarrow> buffer self
        | Some n \<Rightarrow> rev (take n (rev (buffer self))))"
    by (cases "replay_size self") (simp_all add: replay_buffer_def Let_def drop_last_lines)
  with replay_scenario show ?thesis by blast
qed


section \<open>Broadcast\<close>

lemma echo_all_open:
  "\<forall>d \<in> set ds. \<not> closed d \<Longrightarrow> echo_all l ds = (map (\<lambda>d. (oid d, echo_text l)) ds, None)"
  by (induction ds) auto

lemma broadcast_open:
  assumes "\<forall>d \<in> snd ` set (connected_clients self). \<not> closed d"
  shows "broadcast c l e self =
     (map (\<lambda>d. (oid d, echo_text l))
        (filter (accept c (get_default (muted_to_muter self) (source l) []) (kicked self) e)
           (map snd (connected_clients self))), None)"
proof -
  have "\<forall>x \<in> set (filter (accept c (get_default (muted_to_muter self) (source l) []) (kicked self) e)
           (map snd (connected_clients self))). \<not> closed x"
    using assms by auto
  from echo_all_open[OF this] show ?thesis by (simp add: broadcast_def Let_def)
qed

lemma broadcast_member:
  assumes "\<forall>d \<in> snd ` set (connected_clients self). \<not> closed d"
    and "distinct (map (oid \<circ> snd) (connected_clients self))"
    and "d \<in> snd ` set (connected_clients self)"
  shows "(oid d, echo_text l) \<in> set (fst (broadcast c l e self)) \<longleftrightarrow>
      name d \<notin> set (kicked self)
      \<and> name d \<notin> set (get_default (muted_to_muter self) (source l) [])
      \<and> (e \<or> oid d \<noteq> oid c)"
proof -
  have inj: "inj_on oid (set (map snd (connected_clients self)))"
    using assms(2) by (simp add: distinct_map comp_def inj_on_def) (metis snd_conv)
  have "d \<in> set (map snd (connected_clients self))" using assms(3) by simp
  then show ?thesis
    using inj by (auto simp: broadcast_open[OF assms(1)] accept_def inj_on_def)
qed


section \<open>Broadcast to a muter\<close>

lemma example_muted_eq:
  "example_muted = example_channel\<lparr>muted_to_muter := [(''alice'', [''bob''])]\<rparr>"
  by (simp add: example_muted_def add_mute_def account_exists_def example_state_def
      example_channel_def connect_def ChannelServer_new_def bob_def Let_def)

text \<open>
  C4, as stated, fails for events. \<open>bob\<close> has muted \<open>alice\<close>; when \<open>alice\<close> leaves, the
  event line has the source \<^verbatim>\<open>EVENT\<close>, whom nobody has muted, and \<open>bob\<close> receives it.
\<close>

theorem leaving_reaches_muter:
  "''bob'' \<in> set (get_default (muted_to_muter example_muted) ''alice'' [])
   \<and> fst (leaving alice example_muted)
       = [(2, ''[EVENT] alice is leaving.''), (3, ''[EVENT] alice is leaving.'')]"
  unfolding example_muted_eq
  by (simp add: leaving_def broadcast_def example_channel_def connect_def ChannelServer_new_def
      get_default_def accept_def echo_text_def alice_def bob_def carol_def Let_def)

text \<open>
  C4, amended. Let all clients connected to the channel be open, with distinct
  identities. A connected client \<open>d\<close> receives a broadcast line if and only if its name
  is not in \<open>kicked\<close> and not in the muter list stored under the source of the line,
  and, when \<open>echo\<close> is false, it is not the sender. For a plain message of user \<open>U\<close> the
  source is \<open>U\<close> and \<open>echo\<close> is true, so the sender is treated like any other client;
  for the joining and leaving events the source is the literal \<^verbatim>\<open>EVENT\<close> and \<open>echo\<close> is
  false, so the muter list of \<^verbatim>\<open>EVENT\<close> decides, not that of \<open>U\<close>.
\<close>

theorem broadcast_recipients:
  assumes "\<forall>d \<in> snd ` set (connected_clients self). \<not> closed d"
    and "distinct (map (oid \<circ> snd) (connected_clients self))"
    and "d \<in> snd ` set (connected_clients self)"
  shows "((oid d, echo_text l) \<in> set (fst (broadcast c l e self)) \<longleftrightarrow>
            name d \<notin> set (kicked self)
            \<and> name d \<notin> set (get_default (muted_to_muter self) (source l) [])
            \<and> (e \<or> oid d \<noteq> oid c))
    \<and> (name c \<notin> set (kicked self) \<longrightarrow> take 1 line \<noteq> '':'' \<longrightarrow>
          ((oid d, ''['' @ name c @ ''] '' @ line)
             \<in> set (fst (snd (snd (message_loop_turn c line self)))) \<longleftrightarrow>
           name d \<notin> set (kicked self)
           \<and> name d \<notin> set (get_default (muted_to_muter self) (name c) [])))
    \<and> ((oid d, ''[EVENT] '' @ name c @ '' is joining.'') \<in> set (fst (joining c self)) \<longleftrightarrow>
           name d \<notin> set (kicked self)
           \<and> name d \<notin> set (get_default (muted_to_muter self) ''EVENT'' [])
           \<and> oid d \<noteq> oid c)
    \<and> ((oid d, ''[EVENT] '' @ name c @ '' is leaving.'') \<in> set (fst (leaving c self)) \<longleftrightarrow>
           name d \<notin> set (kicked self)
           \<and> name d \<notin> set (get_default (muted_to_muter self) ''EVENT'' [])
           \<and> oid d \<noteq> oid c)"
proof -
  note m = broadcast_member [OF assms]
  have a: "(oid d, echo_text l) \<in> set (fst (broadcast c l e self)) \<longleftrightarrow>
            name d \<notin> set (kicked self)
            \<and> name d \<notin> set (get_default (muted_to_muter self) (source l) [])
            \<and> (e \<or> oid d \<noteq> oid c)"
    by (rule m)
  have b: "(oid d, ''['' @ name c @ ''] '' @ line)
             \<in> set (fst (snd (snd (message_loop_turn c line self)))) \<longleftrightarrow>
           name d \<notin> set (kicked self)
           \<and> name d \<notin> set (get_default (muted_to_muter self) (name c) [])"
    if "name c \<notin> set (kicked self)" "take 1 line \<noteq> '':''"
    using m [of "\<lparr>source = name c, message = line\<rparr>" c True]
    by (simp add: message_loop_turn_said [OF that] echo_text_def)
  have j: "(oid d, ''[EVENT] '' @ name c @ '' is joining.'') \<in> set (fst (joining c self)) \<longleftrightarrow>
           name d \<notin> set (kicked self)
           \<and> name d \<notin> set (get_default (muted_to_muter self) ''EVENT'' [])
           \<and> oid d \<noteq> oid c"
    using m [of "\<lparr>source = ''EVENT'', message = name c @ '' is joining.''\<rparr>" c False]
    by (simp add: joining_def echo_text_def)
  have v: "(oid d, ''[EVENT] '' @ name c @ '' is leaving.'') \<in> set (fst (leaving c self)) \<longleftrightarrow>
           name d \<notin> set (kicked self)
           \<and> name d \<notin> set (get_default (muted_to_muter self) ''EVENT'' [])
           \<and> oid d \<noteq> oid c"
    using m [of "\<lparr>source = ''EVENT'', message = name c @ '' is leaving.''\<rparr>" c False]
    by (simp add: leaving_def echo_text_def)
  from a b j v show ?thesis by blast
qed

text \<open>\<open>bob\<close>, who has muted \<open>alice\<close>, does not receive her \<open>hello\<close>.\<close>

theorem broadcast_recipients_witness:
  "bob \<in> snd ` set (connected_clients example_muted)
   \<and> name alice \<notin> set (kicked example_muted)
   \<and> take 1 ''hello'' \<noteq> '':''
   \<and> name bob \<in> set (get_default (muted_to_muter example_muted) (name alice) [])
   \<and> (oid bob, ''['' @ name alice @ ''] '' @ ''hello'')
        \<notin> set (fst (snd (snd (message_loop_turn alice ''hello'' example_muted))))"
proof -
  have h1: "\<forall>d \<in> snd ` set (connected_clients example_muted). \<not> closed d"
    unfolding example_muted_eq
    by (simp add: example_channel_def connect_def ChannelServer_new_def alice_def bob_def carol_def)
  have h2: "distinct (map (oid \<circ> snd) (connected_clients example_muted))"
    unfolding example_muted_eq
    by (simp add: example_channel_def connect_def ChannelServer_new_def alice_def bob_def carol_def)
  have h3: "bob \<in> snd ` set (connected_clients example_muted)"
    unfolding example_muted_eq
    by (simp add: example_channel_def connect_def ChannelServer_new_def)
  have k: "name alice \<notin> set (kicked example_muted)"
    unfolding example_muted_eq
    by (simp add: example_channel_def connect_def ChannelServer_new_def)
  have t: "take 1 ''hello'' \<noteq> '':''" by simp
  have mu: "name bob \<in> set (get_default (muted_to_muter example_muted) (name alice) [])"
    unfolding example_muted_eq by (simp add: get_default_def alice_def bob_def)
  from broadcast_recipients [OF h1 h2 h3, of _ alice _ "''hello''"] h3 k t mu
  show ?thesis by blast
qed

section \<open>Mute\<close>

text \<open>
  C6, as stated, fails when the caller has already muted \<open>X\<close>: \<^verbatim>\<open>mute add\<close> changes
  nothing and \<^verbatim>\<open>mute del\<close> removes the older entry. Here \<open>bob\<close>, who has muted
  \<open>alice\<close>, mutes and unmutes her again.
\<close>

theorem mute_add_del_already_muted:
  "muted_to_muter example_muted = [(''alice'', [''bob''])]
   \<and> account_exists (ACCOUNTS example_state) ''alice''
   \<and> muted_to_muter
        (fst (del_mute ''alice'' bob
           (fst (add_mute (ACCOUNTS example_state) ''alice'' bob example_muted)))) = []"
  unfolding example_muted_eq
  by (simp add: add_mute_def del_mute_def account_exists_def example_state_def bob_def Let_def)

text \<open>
  C6, amended. In a channel whose muter lists are not empty, for a caller and an
  existing account with a non-empty name \<open>X\<close> that the caller has not muted,
  \<^verbatim>\<open>add_mute(X)\<close> followed by \<^verbatim>\<open>del_mute(X)\<close> of the same caller leaves
  \<open>muted_to_muter\<close> exactly as it was. (For the empty name \<^verbatim>\<open>del_mute\<close> only prints
  \<^verbatim>\<open>Cancelling ...\<close>.)
\<close>

theorem mute_add_del:
  assumes "account_exists accs X" "X \<noteq> []"
    and "name c \<notin> set (get_default (muted_to_muter self) X [])"
    and "\<forall>(k, ms) \<in> set (muted_to_muter self). ms \<noteq> []"
  shows "muted_to_muter (fst (del_mute X c (fst (add_mute accs X c self)))) = muted_to_muter self"
proof (cases "map_of (muted_to_muter self) X")
  case None
  then have "X \<notin> fst ` set (muted_to_muter self)" by (simp add: map_of_eq_None_iff)
  then have "AList.delete X (muted_to_muter self) = muted_to_muter self" by simp
  with None assms(1,2) show ?thesis
    by (simp add: add_mute_def del_mute_def Let_def AList.update_conv' AList.delete_update_same)
next
  case (Some ms)
  with assms(3) have ms: "name c \<notin> set ms" by (simp add: get_default_def)
  from Some assms(4) have ne: "ms \<noteq> []" by (auto dest!: map_of_SomeD)
  have "AList.update X ms (muted_to_muter self) = muted_to_muter self"
    using Some by (rule AList.update_triv)
  with Some ms ne assms(1,2) show ?thesis
    by (simp add: add_mute_def del_mute_def Let_def AList.update_conv' remove1_append)
qed

text \<open>\<open>carol\<close> mutes and unmutes \<open>alice\<close>, whom \<open>bob\<close> has muted.\<close>

theorem mute_add_del_witness:
  "account_exists (ACCOUNTS example_state) ''alice''
   \<and> name carol \<notin> set (get_default (muted_to_muter example_muted) ''alice'' [])
   \<and> list_all (\<lambda>(k, ms). ms \<noteq> []) (muted_to_muter example_muted)
   \<and> muted_to_muter
        (fst (del_mute ''alice'' carol
           (fst (add_mute (ACCOUNTS example_state) ''alice'' carol example_muted))))
      = [(''alice'', [''bob''])]"
proof -
  have h1: "account_exists (ACCOUNTS example_state) ''alice''"
    by (simp add: account_exists_def example_state_def)
  have h2: "''alice'' \<noteq> []" by simp
  have h3: "name carol \<notin> set (get_default (muted_to_muter example_muted) ''alice'' [])"
    unfolding example_muted_eq by (simp add: get_default_def carol_def)
  have h4: "\<forall>(k, ms) \<in> set (muted_to_muter example_muted). ms \<noteq> []"
    unfolding example_muted_eq by simp
  have m: "muted_to_muter example_muted = [(''alice'', [''bob''])]"
    unfolding example_muted_eq by simp
  from mute_add_del [OF h1 h2 h3 h4] h1 h3 h4 show ?thesis
    by (simp add: m)
qed

section \<open>The forgiveness trap\<close>

lemma clean_name_from_channels_frame:
  "ACCOUNTS (fst (clean_name_from_channels n S)) = ACCOUNTS S"
  "BLOCKED (fst (clean_name_from_channels n S)) = BLOCKED S"
  by (simp_all add: clean_name_from_channels_def split: prod.splits)

lemma delete_account_blocked: "BLOCKED (fst (delete_account n S)) = BLOCKED S"
  by (simp add: delete_account_def clean_name_from_channels_frame)

lemma delete_account_unregisters: "n \<notin> fst ` set (ACCOUNTS (fst (delete_account n S)))"
proof (cases "n \<in> fst ` set (ACCOUNTS S)")
  case True
  have "n \<notin> set (map fst (AList.delete n (ACCOUNTS S)))"
    using AList.delete_notin_dom[of n "ACCOUNTS S"] by simp
  then have "n \<notin> fst ` set (map (\<lambda>(k, account).
                        (k, if n \<in> set (contacts account)
                            then account\<lparr>contacts := remove1 n (contacts account)\<rparr>
                            else account)) (AList.delete n (ACCOUNTS S)))"
    by (simp add: image_image case_prod_unfold)
  with True show ?thesis
    by (simp add: delete_account_def clean_name_from_channels_frame)
next
  case False
  then show ?thesis by (simp add: delete_account_def clean_name_from_channels_frame)
qed

lemma do_admin_forgiven:
  assumes "map_of (ACCOUNTS S) (name c) = Some acc" "\<not> administrator acc"
    "forgiven acc < MAX_FORGIVENESS"
  shows "do_admin c S =
     (Inr Pop,
      S\<lparr>ACCOUNTS := AList.update (name c) (acc\<lparr>forgiven := forgiven acc + 1\<rparr>) (ACCOUNTS S)\<rparr>,
      [(oid c, ''You are not authorized to be here.'')])"
  using assms by (simp add: do_admin_def print_to_def)

lemma do_admin_trapped:
  assumes "map_of (ACCOUNTS S) (name c) = Some acc" "\<not> administrator acc"
    "forgiven acc \<ge> MAX_FORGIVENESS"
  shows "BLOCKED (fst (snd (do_admin c S))) = BLOCKED S @ [address c]"
    and "name c \<notin> fst ` set (ACCOUNTS (fst (snd (do_admin c S))))"
    and "snd (delete_account (name c) (S\<lparr>BLOCKED := BLOCKED S @ [address c]\<rparr>)) = None \<Longrightarrow>
         fst (do_admin c S) = Inl SystemExit
         \<and> snd (snd (do_admin c S)) =
            [(oid c, ''You have been warned for the last time!''),
             (oid c, ''Now your IP address has been blocked &''),
             (oid c, ''your account has been completely removed.'')]"
proof -
  let ?S = "S\<lparr>BLOCKED := BLOCKED S @ [address c]\<rparr>"
  obtain S' e where d: "delete_account (name c) ?S = (S', e)" by (cases "delete_account (name c) ?S")
  have st: "fst (snd (do_admin c S)) = S'"
    using assms d by (cases e) (simp_all add: do_admin_def)
  have "BLOCKED S' = BLOCKED ?S" using delete_account_blocked[of "name c" ?S] d by simp
  then show "BLOCKED (fst (snd (do_admin c S))) = BLOCKED S @ [address c]" by (simp add: st)
  show "name c \<notin> fst ` set (ACCOUNTS (fst (snd (do_admin c S))))"
    using delete_account_unregisters[of "name c" ?S] d by (simp add: st)
  show "fst (do_admin c S) = Inl SystemExit
         \<and> snd (snd (do_admin c S)) =
            [(oid c, ''You have been warned for the last time!''),
             (oid c, ''Now your IP address has been blocked &''),
             (oid c, ''your account has been completely removed.'')]"
    if "snd (delete_account (name c) ?S) = None"
    using that assms d by (simp add: do_admin_def print_to_def)
qed

lemma two_attempts:
  assumes "map_of (ACCOUNTS S) (name c) = Some acc" "\<not> administrator acc" "forgiven acc = 0"
  shows "do_admin c S =
           (Inr Pop, admin_attempts 1 c S, [(oid c, ''You are not authorized to be here.'')])"
    and "admin_attempts 1 c S =
           S\<lparr>ACCOUNTS := AList.update (name c) (acc\<lparr>forgiven := 1\<rparr>) (ACCOUNTS S)\<rparr>"
    and "do_admin c (admin_attempts 1 c S) =
           (Inr Pop, admin_attempts 2 c S, [(oid c, ''You are not authorized to be here.'')])"
    and "admin_attempts 2 c S =
           S\<lparr>ACCOUNTS := AList.update (name c) (acc\<lparr>forgiven := 2\<rparr>) (ACCOUNTS S)\<rparr>"
proof -
  let ?S1 = "S\<lparr>ACCOUNTS := AList.update (name c) (acc\<lparr>forgiven := 1\<rparr>) (ACCOUNTS S)\<rparr>"
  let ?S2 = "S\<lparr>ACCOUNTS := AList.update (name c) (acc\<lparr>forgiven := 2\<rparr>) (ACCOUNTS S)\<rparr>"
  have first: "do_admin c S = (Inr Pop, ?S1, [(oid c, ''You are not authorized to be here.'')])"
    using do_admin_forgiven[OF assms(1,2)] assms(3) by (simp add: MAX_FORGIVENESS_def)
  then have e1: "admin_attempts (Suc 0) c S = ?S1" by simp
  then show a1: "admin_attempts 1 c S = ?S1" by simp
  have m1: "map_of (ACCOUNTS ?S1) (name c) = Some (acc\<lparr>forgiven := 1\<rparr>)"
    by (simp add: AList.update_conv')
  have second: "do_admin c ?S1 = (Inr Pop, ?S2, [(oid c, ''You are not authorized to be here.'')])"
    using do_admin_forgiven[OF m1] assms(2) by (simp add: MAX_FORGIVENESS_def)
  then have e2: "admin_attempts (Suc (Suc 0)) c S = ?S2" using e1 by simp
  then show a2: "admin_attempts 2 c S = ?S2" by (simp add: numeral_2_eq_2)
  show "do_admin c S =
           (Inr Pop, admin_attempts 1 c S, [(oid c, ''You are not authorized to be here.'')])"
    using first a1 by simp
  show "do_admin c (admin_attempts 1 c S) =
           (Inr Pop, admin_attempts 2 c S, [(oid c, ''You are not authorized to be here.'')])"
    using second a1 a2 by simp
qed

lemma carol_account:
  "map_of (ACCOUNTS example_state) (name carol) = Some ((Account_new False)\<lparr>contacts := [''bob'']\<rparr>)"
  "\<not> administrator ((Account_new False)\<lparr>contacts := [''bob'']\<rparr>)"
  "forgiven ((Account_new False)\<lparr>contacts := [''bob'']\<rparr>) = 0"
  by (simp_all add: example_state_def carol_def Account_new_def)

text \<open>
  C3, as stated, fails: \<^verbatim>\<open>do_admin\<close> compares \<open>forgiven\<close> with \<^verbatim>\<open>MAX_FORGIVENESS\<close> before
  it increments it. The second attempt of \<open>carol\<close>, who is no administrator and starts
  with \<open>forgiven = 0\<close>, is forgiven like the first: her account stays, with
  \<open>forgiven = 2\<close>, and the ban list stays empty.
\<close>

theorem do_admin_second_attempt_forgiven:
  "do_admin carol (admin_attempts 1 carol example_state) =
     (Inr Pop, admin_attempts 2 carol example_state,
      [(3, ''You are not authorized to be here.'')])
   \<and> map fst (ACCOUNTS (admin_attempts 2 carol example_state)) = [''alice'', ''bob'', ''carol'']
   \<and> map_option forgiven (map_of (ACCOUNTS (admin_attempts 2 carol example_state)) ''carol'')
       = Some 2
   \<and> BLOCKED (admin_attempts 2 carol example_state) = []"
proof -
  note t = two_attempts [OF carol_account]
  have "oid carol = 3" by (simp add: carol_def)
  with t(3) have "do_admin carol (admin_attempts 1 carol example_state) =
     (Inr Pop, admin_attempts 2 carol example_state,
      [(3, ''You are not authorized to be here.'')])" by simp
  moreover have "map fst (ACCOUNTS (admin_attempts 2 carol example_state))
       = [''alice'', ''bob'', ''carol'']"
    unfolding t(4) by (simp add: example_state_def carol_def)
  moreover have "map_option forgiven
       (map_of (ACCOUNTS (admin_attempts 2 carol example_state)) ''carol'') = Some 2"
    unfolding t(4) by (simp add: example_state_def carol_def Account_new_def)
  moreover have "BLOCKED (admin_attempts 2 carol example_state) = []"
    unfolding t(4) by (simp add: example_state_def)
  ultimately show ?thesis by blast
qed

text \<open>
  C3, amended. For an account that is no administrator and has \<open>forgiven = 0\<close>, the
  first and the second \<^verbatim>\<open>admin\<close> command each add one to \<open>forgiven\<close>, print
  \<^verbatim>\<open>You are not authorized to be here.\<close> and pop the menu, leaving the ban list alone.
  The third appends the address of the client to the ban list and deletes the account;
  when the cleanup of \<^verbatim>\<open>delete_account\<close> raises no error it then prints its three
  lines and closes the connection, which ends the session with \<^verbatim>\<open>SystemExit\<close>.
\<close>

theorem do_admin_third_attempt:
  assumes "map_of (ACCOUNTS S) (name c) = Some acc" "\<not> administrator acc" "forgiven acc = 0"
  shows "do_admin c S =
           (Inr Pop, admin_attempts 1 c S, [(oid c, ''You are not authorized to be here.'')])
    \<and> map_of (ACCOUNTS (admin_attempts 1 c S)) (name c) = Some (acc\<lparr>forgiven := 1\<rparr>)
    \<and> BLOCKED (admin_attempts 1 c S) = BLOCKED S
    \<and> do_admin c (admin_attempts 1 c S) =
           (Inr Pop, admin_attempts 2 c S, [(oid c, ''You are not authorized to be here.'')])
    \<and> map_of (ACCOUNTS (admin_attempts 2 c S)) (name c) = Some (acc\<lparr>forgiven := 2\<rparr>)
    \<and> BLOCKED (admin_attempts 2 c S) = BLOCKED S
    \<and> BLOCKED (admin_attempts 3 c S) = BLOCKED S @ [address c]
    \<and> name c \<notin> fst ` set (ACCOUNTS (admin_attempts 3 c S))
    \<and> (snd (delete_account (name c)
              ((admin_attempts 2 c S)\<lparr>BLOCKED := BLOCKED S @ [address c]\<rparr>)) = None \<longrightarrow>
         fst (do_admin c (admin_attempts 2 c S)) = Inl SystemExit
         \<and> snd (snd (do_admin c (admin_attempts 2 c S))) =
            [(oid c, ''You have been warned for the last time!''),
             (oid c, ''Now your IP address has been blocked &''),
             (oid c, ''your account has been completely removed.'')])"
proof -
  let ?S1 = "S\<lparr>ACCOUNTS := AList.update (name c) (acc\<lparr>forgiven := 1\<rparr>) (ACCOUNTS S)\<rparr>"
  let ?S2 = "S\<lparr>ACCOUNTS := AList.update (name c) (acc\<lparr>forgiven := 2\<rparr>) (ACCOUNTS S)\<rparr>"
  note t = two_attempts [OF assms]
  have m1: "map_of (ACCOUNTS ?S1) (name c) = Some (acc\<lparr>forgiven := 1\<rparr>)"
    by (simp add: AList.update_conv')
  have m2: "map_of (ACCOUNTS ?S2) (name c) = Some (acc\<lparr>forgiven := 2\<rparr>)"
    by (simp add: AList.update_conv')
  have a3: "admin_attempts 3 c S = fst (snd (do_admin c ?S2))"
    using t(4) by (simp add: numeral_3_eq_3 numeral_2_eq_2)
  have p: "\<not> administrator (acc\<lparr>forgiven := 2\<rparr>)" "forgiven (acc\<lparr>forgiven := 2\<rparr>) \<ge> MAX_FORGIVENESS"
    using assms(2) by (simp_all add: MAX_FORGIVENESS_def)
  note trap = do_admin_trapped[OF m2 p]
  show ?thesis
    unfolding a3 using t(1,3) m1 m2 trap unfolding t(2,4) by simp
qed

text \<open>The third attempt of \<open>carol\<close>.\<close>

theorem do_admin_third_attempt_witness:
  "map_of (ACCOUNTS example_state) (name carol) = Some ((Account_new False)\<lparr>contacts := [''bob'']\<rparr>)
   \<and> BLOCKED (admin_attempts 3 carol example_state) = [''10.0.0.3'']
   \<and> ''carol'' \<notin> fst ` set (ACCOUNTS (admin_attempts 3 carol example_state))
   \<and> fst (do_admin carol (admin_attempts 2 carol example_state)) = Inl SystemExit"
proof -
  have d: "snd (delete_account (name carol)
              ((admin_attempts 2 carol example_state)
                 \<lparr>BLOCKED := BLOCKED example_state @ [address carol]\<rparr>)) = None"
    unfolding two_attempts(4) [OF carol_account]
    by (simp add: example_state_def carol_def delete_account_def clean_name_from_channels_def
        clean_channel_def Account_new_def ChannelServer_new_def remove_every.simps Let_def)
  have b: "BLOCKED example_state @ [address carol] = [''10.0.0.3'']" "name carol = ''carol''"
    by (simp_all add: example_state_def carol_def)
  from do_admin_third_attempt [OF carol_account] d b carol_account(1)
  show ?thesis by simp
qed

section \<open>Registration\<close>

lemma split_str_examples:
  "split_str '' bob'' = [''bob'']" "split_str [] = []" "split_str '' pw'' = [''pw'']"
  "split_str '' main'' = [''main'']" "split_str ''dave'' = [''dave'']" "split_str ''pw'' = [''pw'']"
  by (simp_all add: split_str_def isspace_def)


text \<open>
  C9 does not hold of the code. \<^verbatim>\<open>do_register\<close> and \<^verbatim>\<open>do_channel\<close> reject a name only
  when \<^verbatim>\<open>len(name.split()) > 1\<close>, and \<^verbatim>\<open>do_register\<close> has no test for the empty name:
  a name typed at the prompt with a blank before it is accepted with the blank, and
  so is the empty account name. (Names given as arguments of the command are words
  of the command line and have no whitespace.)
\<close>

theorem register_accepts_blanks:
  "fst (do_register dave [] [''yes'', '' bob'', ''pw''] example_state)
     = Inr (Push (InsideMenu (dave\<lparr>name := '' bob''\<rparr>)))
   \<and> map fst (ACCOUNTS (fst (snd (do_register dave [] [''yes'', '' bob'', ''pw''] example_state))))
     = [''alice'', ''bob'', ''carol'', '' bob'']
   \<and> map fst (ACCOUNTS (fst (snd (do_register dave [] [''yes'', [], ''pw''] example_state))))
     = [''alice'', ''bob'', ''carol'', []]
   \<and> map fst (CHANNEL_NAMES (fst (snd (do_channel 11 alice [] '' main'' example_state))))
     = [''main'', '' main'']"
  by (simp add: do_register_def do_channel_def input_line_def split_str_examples example_state_def
      Let_def)

text \<open>
  C10 does not hold of the code. The password is rejected only when
  \<^verbatim>\<open>len(word.split()) != 1\<close>: a password typed at the prompt with a blank before it
  contains whitespace and is accepted, and the account stays registered.
\<close>

theorem register_keeps_padded_password:
  "fst (do_register dave [''dave''] [''yes'', '' pw''] example_state)
     = Inr (Push (InsideMenu (dave\<lparr>name := ''dave''\<rparr>)))
   \<and> map_option Account.password
        (map_of (ACCOUNTS (fst (snd (do_register dave [''dave''] [''yes'', '' pw''] example_state))))
           ''dave'')
     = Some '' pw''"
  by (simp add: do_register_def input_line_def split_str_examples example_state_def Let_def
      AList.update_conv')

text \<open>
  What does hold: \<^verbatim>\<open>do_register\<close> leaves the registries as they were unless it ends
  by logging the client in, and then it has added one account under a name that had
  none; a password that is not exactly one word is rejected and the account created
  for it is removed again.
\<close>

lemma delete_update_fresh: "k \<notin> fst ` set m \<Longrightarrow> AList.delete k (AList.update k v m) = m"
  by (simp add: AList.delete_update_same)

lemma update_fresh: "k \<notin> fst ` set m \<Longrightarrow> AList.update k v m = m @ [(k, v)]"
  by (induction m) auto

lemma update_snoc: "k \<notin> fst ` set m \<Longrightarrow> AList.update k b (m @ [(k, a)]) = m @ [(k, b)]"
  by (induction m) auto

lemma do_register_effect:
  "fst (snd (do_register c args answers S)) = S
   \<or> (\<exists>name' a. name' \<notin> fst ` set (ACCOUNTS S)
         \<and> fst (snd (do_register c args answers S)) = S\<lparr>ACCOUNTS := ACCOUNTS S @ [(name', a)]\<rparr>
         \<and> fst (do_register c args answers S) = Inr (Push (InsideMenu (c\<lparr>name := name'\<rparr>))))"
proof (cases answers)
  case Nil
  then show ?thesis by (simp add: do_register_def input_line_def)
next
  case (Cons agree answers1)
  show ?thesis
  proof (cases "agree \<in> set [''yes'', ''true'', ''1'']")
    case False
    with Cons show ?thesis by (simp add: do_register_def input_line_def)
  next
    case True
    obtain r w1 where u: "(if args \<noteq> [] then (Some (hd args, answers1), [])
                   else input_line c ''Username:'' answers1) = (r, w1)"
      by (cases "(if args \<noteq> [] then (Some (hd args, answers1), [])
                   else input_line c ''Username:'' answers1)")
    show ?thesis
    proof (cases r)
      case None
      with Cons True u show ?thesis
        by (simp add: do_register_def input_line_def del: set_simps)
    next
      case (Some p)
      obtain name' answers2 where p: "p = (name', answers2)" by (cases p)
      show ?thesis
      proof (cases "length (split_str name') > 1 \<or> name' \<in> fst ` set (ACCOUNTS S)")
        case True
        with Cons \<open>agree \<in> set [''yes'', ''true'', ''1'']\<close> u Some p show ?thesis
          by (auto simp add: do_register_def input_line_def Let_def simp del: set_simps)
      next
        case False
        obtain r2 w2 where v: "(if length args > 1 then (Some (args ! 1, answers2), [])
                                 else input_line c ''Password:'' answers2) = (r2, w2)"
          by (cases "(if length args > 1 then (Some (args ! 1, answers2), [])
                                 else input_line c ''Password:'' answers2)")
        have fresh: "AList.delete name' (AList.update name' a (ACCOUNTS S)) = ACCOUNTS S" for a
          using False by (simp add: delete_update_fresh)
        have app: "AList.update name' a (ACCOUNTS S) = ACCOUNTS S @ [(name', a)]" for a
          using False by (simp add: update_fresh)
        show ?thesis
        proof (cases r2)
          case None
          with Cons \<open>agree \<in> set [''yes'', ''true'', ''1'']\<close> u Some p False v show ?thesis
            by (simp add: do_register_def input_line_def Let_def fresh del: set_simps)
        next
          case (Some q)
          obtain word answers3 where q: "q = (word, answers3)" by (cases q)
          have upd3: "AList.update name' b (ACCOUNTS S @ [(name', a)]) = ACCOUNTS S @ [(name', b)]"
            for a b
            using False by (simp add: update_snoc)
          show ?thesis
          proof (cases "length (split_str word) = 1")
            case True
            with Cons \<open>agree \<in> set [''yes'', ''true'', ''1'']\<close> u \<open>r = Some p\<close> p False v Some q
            have "fst (snd (do_register c args answers S))
                    = S\<lparr>ACCOUNTS := ACCOUNTS S @ [(name', (Account_new (ACCOUNTS S = []))
                           \<lparr>Account.password := word, online := True\<rparr>)]\<rparr>"
              and "fst (do_register c args answers S) = Inr (Push (InsideMenu (c\<lparr>name := name'\<rparr>)))"
              by (simp_all add: do_register_def input_line_def Let_def app upd3 del: set_simps)
            with False show ?thesis by blast
          next
            case False
            with Cons \<open>agree \<in> set [''yes'', ''true'', ''1'']\<close> u \<open>r = Some p\<close> p
              \<open>\<not> (length (split_str name') > 1 \<or> name' \<in> fst ` set (ACCOUNTS S))\<close> v Some q
            show ?thesis
              by (simp add: do_register_def input_line_def Let_def fresh del: set_simps)
          qed
        qed
      qed
    qed
  qed
qed


lemma do_register_bad_password:
  assumes "agree \<in> set [''yes'', ''true'', ''1'']" "length (split_str name') \<le> 1"
    "name' \<notin> fst ` set (ACCOUNTS S)" "length (split_str word) \<noteq> 1"
  shows "do_register c [name', word] (agree # rest) S =
     (Inr Continue, S,
      [(oid c, terms_of_service), (oid c, ''Do you agree?''),
       (oid c, ''Password may not have whitespace!'')])"
  using assms
  by (simp add: do_register_def input_line_def Let_def delete_update_fresh print_to_def
      del: set_simps)

text \<open>\<^verbatim>\<open>do_channel\<close> adds at most one name, which is new and not empty.\<close>

lemma do_channel_effect:
  "CHANNEL_NAMES (fst (snd (do_channel ident c args answer S))) = CHANNEL_NAMES S
   \<or> (\<exists>name'. name' \<notin> fst ` set (CHANNEL_NAMES S) \<and> name' \<noteq> []
         \<and> CHANNEL_NAMES (fst (snd (do_channel ident c args answer S)))
             = CHANNEL_NAMES S @ [(name', NEXT_CHANNEL S)])"
proof -
  obtain name' w where n: "(if args \<noteq> [] then (hd args, [])
                        else (answer, print_to c ''Channel to open?'')) = (name', w)"
    by (cases "(if args \<noteq> [] then (hd args, [])
                        else (answer, print_to c ''Channel to open?''))")
  show ?thesis
  proof (cases "map_of (CHANNEL_NAMES S) name'")
    case None
    then have "name' \<notin> fst ` set (CHANNEL_NAMES S)" by (simp add: map_of_eq_None_iff)
    then have "AList.update name' i (CHANNEL_NAMES S) = CHANNEL_NAMES S @ [(name', i)]" for i
      by (rule update_fresh)
    with None n \<open>name' \<notin> fst ` set (CHANNEL_NAMES S)\<close> show ?thesis
      by (simp add: do_channel_def Let_def)
  next
    case (Some index)
    with n show ?thesis
      by (simp add: do_channel_def Let_def split: option.split)
  qed
qed

section \<open>Reachable states of a channel\<close>

lemma message_loop_turn_lists:
  "banned (fst (snd (message_loop_turn client line self))) = banned self"
  "muted_to_muter (fst (snd (message_loop_turn client line self))) = muted_to_muter self"
  by (simp_all add: message_loop_turn_def add_line_def Let_def split: prod.splits)

lemma do_kick_lists:
  "banned (fst (do_kick accs client args verbose answer self)) = banned self"
  "muted_to_muter (fst (do_kick accs client args verbose answer self)) = muted_to_muter self"
  by (simp_all add: do_kick_def Let_def split: sum.splits prod.splits bool.splits option.splits)

lemma add_ban_lists:
  "banned (fst (add_ban accs client n self)) =
     (if fst (is_protected accs client n self) \<noteq> None \<and> n \<notin> set (banned self)
      then banned self @ [n] else banned self)"
  "muted_to_muter (fst (add_ban accs client n self)) = muted_to_muter self"
proof -
  obtain pr w0 where p: "is_protected accs client n self = (pr, w0)"
    by (cases "is_protected accs client n self")
  obtain s2 w2 e where k: "do_kick accs client [n] False [] (self\<lparr>banned := banned self @ [n]\<rparr>) = (s2, w2, e)"
    by (cases "do_kick accs client [n] False [] (self\<lparr>banned := banned self @ [n]\<rparr>)") auto
  have b2: "banned s2 = banned self @ [n]" "muted_to_muter s2 = muted_to_muter self"
    using do_kick_lists[of accs client "[n]" False "[]" "self\<lparr>banned := banned self @ [n]\<rparr>"] k
    by simp_all
  show "banned (fst (add_ban accs client n self)) =
     (if fst (is_protected accs client n self) \<noteq> None \<and> n \<notin> set (banned self)
      then banned self @ [n] else banned self)"
    using p k b2 by (cases pr; cases e) (simp_all add: add_ban_def Let_def)
  show "muted_to_muter (fst (add_ban accs client n self)) = muted_to_muter self"
    using p k b2 by (cases pr; cases e) (simp_all add: add_ban_def Let_def)
qed

lemma muters_ok_update:
  assumes "muters_ok m" "distinct ms"
  shows "muters_ok (AList.update k ms m)"
  using assms set_update_subset[of k ms m]
  unfolding muters_ok_def by (auto simp: AList.distinct_update)

lemma add_mute_ok:
  assumes "muters_ok (muted_to_muter self)"
  shows "muters_ok (muted_to_muter (fst (add_mute accs muted client self)))"
proof (cases "map_of (muted_to_muter self) muted")
  case None
  then show ?thesis
    using assms by (simp add: add_mute_def Let_def muters_ok_update)
next
  case (Some ms)
  then have "(muted, ms) \<in> set (muted_to_muter self)" by (rule map_of_SomeD)
  with assms have "distinct ms" by (auto simp: muters_ok_def)
  with Some show ?thesis
    using assms by (simp add: add_mute_def Let_def muters_ok_update)
qed

lemma del_mute_ok:
  assumes "muters_ok (muted_to_muter self)"
  shows "muters_ok (muted_to_muter (fst (del_mute muted client self)))"
proof (cases "map_of (muted_to_muter self) muted")
  case None
  then show ?thesis
    using assms by (simp add: del_mute_def Let_def)
next
  case (Some ms)
  then have "(muted, ms) \<in> set (muted_to_muter self)" by (rule map_of_SomeD)
  with assms have "distinct (remove1 (name client) ms)" by (auto simp: muters_ok_def)
  with Some show ?thesis
    using assms by (simp add: del_mute_def Let_def muters_ok_update muters_ok_delete)
qed

lemma reachable_inv: "reachable self \<Longrightarrow> channel_inv self"
proof (induction rule: reachable.induct)
  case (new channel_name' owner')
  then show ?case by (simp add: channel_inv_def ChannelServer_new_def muters_ok_def)
next
  case (add_mute self accs muted client)
  then show ?case
    using add_mute_ok[of self accs muted client]
    by (simp add: channel_inv_def) (simp add: add_mute_def Let_def split: option.splits)
next
  case (del_mute self muted client)
  then show ?case
    using del_mute_ok[of self muted client]
    by (simp add: channel_inv_def) (simp add: del_mute_def Let_def split: option.splits)
next
  case (do_kick self accs client args verbose answer)
  then show ?case by (simp add: channel_inv_def do_kick_lists)
next
  case (add_ban self accs client name')
  then show ?case by (simp add: channel_inv_def add_ban_lists)
next
  case (del_ban self client name')
  then show ?case by (simp add: channel_inv_def del_ban_def)
next
  case (clean_channel self name')
  obtain ch' e where c: "clean_channel name' self = (ch', e)" by (cases "clean_channel name' self")
  have "banned ch' = removeAll name' (banned self)"
    using c by (auto simp: clean_channel_def Let_def remove_every_removeAll split: prod.splits)
  moreover have "muters_ok (muted_to_muter ch')"
    using clean_channel_keeps(1)[OF c] clean_channel.IH by (simp add: channel_inv_def)
  ultimately show ?case
    using clean_channel.IH c by (simp add: channel_inv_def distinct_removeAll)
next
  case (message_loop_turn self client line)
  then show ?case by (simp add: channel_inv_def message_loop_turn_lists)
qed (simp_all add: channel_inv_def connect_def handle_finally_def disconnect_def do_buffer_def
      do_replay_def do_purge_def do_close_def do_reset_def reset_channel_def muters_ok_def)

lemma distinct_count_le_1: "distinct xs \<Longrightarrow> count_list xs a \<le> Suc 0"
  by (induction xs) auto


lemma reachable_example_channel: "reachable example_channel"
  unfolding example_channel_def by (intro reachable.connect reachable.new)

text \<open>
  C7, as stated, fails in its second half: \<^verbatim>\<open>add_mute\<close> does not compare the muted
  name with the caller. When \<open>alice\<close> runs \<^verbatim>\<open>:mute add alice\<close> in her channel, her name
  is a key of \<open>muted_to_muter\<close> and a member of the list under that key.
\<close>

theorem self_mute_reachable:
  "reachable example_self_muted
   \<and> muted_to_muter example_self_muted = [(''alice'', [''alice''])]
   \<and> ''alice'' \<in> fst ` set (muted_to_muter example_self_muted)
   \<and> ''alice'' \<in> set (get_default (muted_to_muter example_self_muted) ''alice'' [])"
proof -
  have r: "reachable example_self_muted"
    unfolding example_self_muted_def by (rule reachable.add_mute) (rule reachable_example_channel)
  have m: "muted_to_muter example_self_muted = [(''alice'', [''alice''])]"
    by (simp add: example_self_muted_def add_mute_def account_exists_def example_state_def
        example_channel_def connect_def ChannelServer_new_def alice_def Let_def)
  from r m show ?thesis by (simp add: get_default_def)
qed

text \<open>
  C7, amended. In every reachable state of a channel, a name occurs at most once in
  \<open>banned\<close> and at most once in each muter list of \<open>muted_to_muter\<close>. (A name can be a
  key of \<open>muted_to_muter\<close> and a member of its own muter list.)
\<close>

theorem reachable_at_most_once:
  assumes "reachable self"
  shows "count_list (banned self) A \<le> 1
    \<and> (\<forall>(k, ms) \<in> set (muted_to_muter self). count_list ms A \<le> 1)"
proof -
  from assms have "channel_inv self" by (rule reachable_inv)
  then have "distinct (banned self)" and "\<forall>(k, ms) \<in> set (muted_to_muter self). distinct ms"
    by (simp_all add: channel_inv_def muters_ok_def)
  then show ?thesis by (auto simp: distinct_count_le_1)
qed

text \<open>The channel after \<open>alice\<close> has banned \<open>bob\<close>, which also kicks him.\<close>

theorem reachable_at_most_once_witness:
  "reachable example_banned \<and> banned example_banned = [''bob'']
   \<and> kicked example_banned = [''bob'']
   \<and> count_list (banned example_banned) ''bob'' \<le> 1"
proof -
  have r: "reachable example_banned"
    unfolding example_banned_def by (rule reachable.add_ban) (rule reachable_example_channel)
  have b: "banned example_banned = [''bob'']" "kicked example_banned = [''bob'']"
    by (simp_all add: example_banned_def add_ban_def do_kick_def privileged_def is_protected_def
        is_administrator_def example_state_def example_channel_def connect_def
        ChannelServer_new_def Account_new_def alice_def bob_def carol_def print_to_def Let_def)
  from reachable_at_most_once [OF r, of "''bob''"] r b show ?thesis by simp
qed

end
